theory Spec2Isabelle
  imports Main "HOL-Library.Sublist"
begin

section \<open>The news scraper: policy gate, fetcher, extractor, pipeline\<close>

text \<open>
  A shallow embedding of \<^verbatim>\<open>src/news_scraper.py\<close>. Python strings are modelled as
  \<^typ>\<open>string\<close> (code points below 256). Every call that leaves the process (network,
  clock, file system, logging) is recorded as an \<open>event\<close>; a function takes the history of
  events so far and returns its result together with the events it emitted, in order.
  An exception is a value: \<open>Inl e\<close> of a sum type. The third-party libraries and the
  outside world are the fields of an \<open>env\<close> record; the answers of the world may depend
  on the history.
\<close>

subsection \<open>Python string operations used by the source\<close>

fun str_split :: "char \<Rightarrow> string \<Rightarrow> string list" where
  "str_split c [] = [[]]"
| "str_split c (x # xs) =
     (if x = c then [] # str_split c xs
      else (case str_split c xs of [] \<Rightarrow> [[x]] | w # ws \<Rightarrow> (x # w) # ws))"

fun str_join :: "string \<Rightarrow> string list \<Rightarrow> string" where
  "str_join sep [] = []"
| "str_join sep [w] = w"
| "str_join sep (w # v # ws) = w @ sep @ str_join sep (v # ws)"

definition is_space :: "char \<Rightarrow> bool" where
  "is_space c = (let n = (of_char c :: nat) in
     (9 \<le> n \<and> n \<le> 13) \<or> (28 \<le> n \<and> n \<le> 32) \<or> n = 133 \<or> n = 160)"

definition str_strip :: "string \<Rightarrow> string" where
  "str_strip s = rev (dropWhile is_space (rev (dropWhile is_space s)))"

definition lower_char :: "char \<Rightarrow> char" where
  "lower_char c = (let n = (of_char c :: nat) in
     if (65 \<le> n \<and> n \<le> 90) \<or> (192 \<le> n \<and> n \<le> 222 \<and> n \<noteq> 215)
     then char_of (n + 32) else c)"

definition str_lower :: "string \<Rightarrow> string" where
  "str_lower s = map lower_char s"

text \<open>\<^verbatim>\<open>k in t\<close> on strings: \<open>k\<close> occurs in \<open>t\<close> as a contiguous substring.\<close>

fun str_contains :: "string \<Rightarrow> string \<Rightarrow> bool" where
  "str_contains [] k = (k = [])"
| "str_contains (c # cs) k = (prefix k (c # cs) \<or> str_contains cs k)"

text \<open>\<^verbatim>\<open>name, url = source_entry.split("=", 1)\<close>, for an entry that contains \<open>=\<close>.\<close>

definition split_once :: "char \<Rightarrow> string \<Rightarrow> string \<times> string" where
  "split_once c s = (takeWhile (\<lambda>x. x \<noteq> c) s, drop 1 (dropWhile (\<lambda>x. x \<noteq> c) s))"

definition digit_char :: "nat \<Rightarrow> char" where
  "digit_char d = char_of (48 + d)"

fun str_of_nat :: "nat \<Rightarrow> string" where
  "str_of_nat n = (if n < 10 then [digit_char n]
                   else str_of_nat (n div 10) @ [digit_char (n mod 10)])"

declare str_of_nat.simps [simp del]

subsection \<open>Events, exceptions, and the environment\<close>

datatype exn = Exception string

fun str_of_exn :: "exn \<Rightarrow> string" where
  "str_of_exn (Exception m) = m"

datatype level = INFO | WARNING | ERROR

datatype event =
    Log level string
  | Urlopen string
  | Requests_get string "(string \<times> string) list" nat
  | Sleep_uniform nat nat
  | Mkdir string
  | Write_file string string

text \<open>
  \<open>Urlopen u\<close> is \<^verbatim>\<open>urllib.request.urlopen(u)\<close> made by \<^verbatim>\<open>RobotFileParser.read\<close>;
  \<open>Requests_get u headers timeout\<close> is \<^verbatim>\<open>requests.get(u, headers=..., timeout=...)\<close>;
  \<open>Sleep_uniform a b\<close> is \<^verbatim>\<open>time.sleep(random.uniform(a, b))\<close>;
  \<open>Mkdir p\<close> is \<^verbatim>\<open>p.mkdir(parents=True, exist_ok=True)\<close>;
  \<open>Write_file p s\<close> is the text \<open>s\<close> written to the file \<open>p\<close> opened for writing.
\<close>

datatype urlopen_result =
    Body string
  | HTTPError nat
  | URLError exn

record response =
  status_code :: nat
  reason :: string
  resp_url :: string
  resp_text :: string

record anchor =
  get_text :: string
  href :: "string option"

datatype soup = Soup (select_a: "anchor list")

text \<open>
  An \<open>anchor\<close> is one element of \<^verbatim>\<open>soup.select("a")\<close>: \<open>get_text\<close> is
  \<^verbatim>\<open>item.get_text(strip=True)\<close> and \<open>href\<close> is \<^verbatim>\<open>item.get("href")\<close>.
\<close>

record headline =
  h_source :: string
  h_title :: string
  h_url :: string
  h_time :: "string option"

record env =
  urljoin :: "string \<Rightarrow> string \<Rightarrow> exn + string"
  urlparse_error :: "string \<Rightarrow> exn option"
  urlopen :: "event list \<Rightarrow> string \<Rightarrow> urlopen_result"
  utf8_decode :: "string \<Rightarrow> exn + string"
  rules_can_fetch :: "string \<Rightarrow> string \<Rightarrow> string \<Rightarrow> exn + bool"
  requests_get :: "event list \<Rightarrow> string \<Rightarrow> (string \<times> string) list \<Rightarrow> nat \<Rightarrow> exn + response"
  html_parser :: "string \<Rightarrow> exn + soup"
  path_parent :: "string \<Rightarrow> string"
  mkdir_error :: "event list \<Rightarrow> string \<Rightarrow> exn option"
  open_error :: "event list \<Rightarrow> string \<Rightarrow> exn option"
  to_csv :: "headline list \<Rightarrow> string"

text \<open>
  \<open>urljoin\<close> is \<^verbatim>\<open>urllib.parse.urljoin\<close> (it raises \<^verbatim>\<open>ValueError\<close> on a malformed
  bracketed host); \<open>urlparse_error\<close> is the exception, if any, of \<^verbatim>\<open>urllib.parse.urlparse\<close>;
  \<open>urlopen h u\<close> is what the network answers to the request for \<open>u\<close> after history \<open>h\<close>;
  \<open>rules_can_fetch text agent u\<close> is the verdict of the rules parsed from the decoded
  policy file \<open>text\<close> (\<^verbatim>\<open>RobotFileParser.parse\<close> and the entry matching of
  \<^verbatim>\<open>RobotFileParser.can_fetch\<close>); \<open>html_parser\<close> is \<^verbatim>\<open>BeautifulSoup(text, "html.parser")\<close>.
\<close>

subsection \<open>The library's robots.txt reader\<close>

text \<open>
  \<^verbatim>\<open>urllib.robotparser.RobotFileParser\<close> of CPython 3.11 (\<^verbatim>\<open>Lib/urllib/robotparser.py\<close>):
  the fields that \<^verbatim>\<open>read\<close> and \<^verbatim>\<open>can_fetch\<close> use. \<open>last_checked\<close> is whether the
  time stamp is non-zero; \<open>rp_text\<close> is the text handed to \<^verbatim>\<open>parse\<close>.
\<close>

record robot_file_parser =
  rp_url :: string
  disallow_all :: bool
  allow_all :: bool
  last_checked :: bool
  rp_text :: string

definition RobotFileParser :: robot_file_parser where
  "RobotFileParser =
     \<lparr>rp_url = [], disallow_all = False, allow_all = False, last_checked = False, rp_text = []\<rparr>"

definition rp_set_url :: "env \<Rightarrow> robot_file_parser \<Rightarrow> string \<Rightarrow> exn + robot_file_parser" where
  "rp_set_url env rp u =
     (case urlparse_error env u of
        Some e \<Rightarrow> Inl e
      | None \<Rightarrow> Inr (rp\<lparr>rp_url := u\<rparr>))"

definition rp_read :: "env \<Rightarrow> event list \<Rightarrow> robot_file_parser \<Rightarrow> exn + robot_file_parser" where
  "rp_read env h rp =
     (case urlopen env h (rp_url rp) of
        HTTPError code \<Rightarrow>
          if code = 401 \<or> code = 403 then Inr (rp\<lparr>disallow_all := True\<rparr>)
          else if code \<ge> 400 \<and> code < 500 then Inr (rp\<lparr>allow_all := True\<rparr>)
          else Inr rp
      | URLError e \<Rightarrow> Inl e
      | Body raw \<Rightarrow>
          (case utf8_decode env raw of
             Inl e \<Rightarrow> Inl e
           | Inr txt \<Rightarrow> Inr (rp\<lparr>last_checked := True, rp_text := txt\<rparr>)))"

definition rp_can_fetch :: "env \<Rightarrow> robot_file_parser \<Rightarrow> string \<Rightarrow> string \<Rightarrow> exn + bool" where
  "rp_can_fetch env rp useragent u =
     (if disallow_all rp then Inr False
      else if allow_all rp then Inr True
      else if \<not> last_checked rp then Inr False
      else rules_can_fetch env (rp_text rp) useragent u)"

subsection \<open>Helper functions of the scraper\<close>

definition could_not_read :: "string \<Rightarrow> exn \<Rightarrow> event" where
  "could_not_read base e =
     Log WARNING (''Could not read robots.txt for '' @ base @ '': '' @ str_of_exn e)"

definition can_fetch :: "env \<Rightarrow> string \<Rightarrow> string \<Rightarrow> event list \<Rightarrow> (exn + bool) \<times> event list" where
  "can_fetch env url user_agent h =
     (let base = str_join ''/'' (take 3 (str_split CHR ''/'' url)) in
      case urljoin env base ''robots.txt'' of
        Inl e \<Rightarrow> (Inl e, [])
      | Inr robots_url \<Rightarrow>
          (case rp_set_url env RobotFileParser robots_url of
             Inl e \<Rightarrow> (Inr False, [could_not_read base e])
           | Inr rp \<Rightarrow>
               (case rp_read env h rp of
                  Inl e \<Rightarrow> (Inr False, [Urlopen robots_url, could_not_read base e])
                | Inr rp' \<Rightarrow>
                    (case rp_can_fetch env rp' user_agent url of
                       Inl e \<Rightarrow> (Inr False, [Urlopen robots_url, could_not_read base e])
                     | Inr b \<Rightarrow> (Inr b, [Urlopen robots_url])))))"

text \<open>\<^verbatim>\<open>response.raise_for_status()\<close> of the requests library: the exception, if any.\<close>

definition raise_for_status :: "response \<Rightarrow> exn option" where
  "raise_for_status r =
     (if 400 \<le> status_code r \<and> status_code r < 500 then
        Some (Exception (str_of_nat (status_code r) @ '' Client Error: '' @ reason r
                         @ '' for url: '' @ resp_url r))
      else if 500 \<le> status_code r \<and> status_code r < 600 then
        Some (Exception (str_of_nat (status_code r) @ '' Server Error: '' @ reason r
                         @ '' for url: '' @ resp_url r))
      else None)"

definition skipping :: "string \<Rightarrow> event" where
  "skipping url = Log WARNING (''Skipping '' @ url @ '' due to robots.txt restrictions.'')"

definition failed_to_fetch :: "string \<Rightarrow> exn \<Rightarrow> event" where
  "failed_to_fetch url e = Log ERROR (''Failed to fetch '' @ url @ '': '' @ str_of_exn e)"

definition headers :: "(string \<times> string) list" where
  "headers = [(''User-Agent'', ''Mozilla/5.0 (NewsScraperBot)'')]"

definition fetch_html :: "env \<Rightarrow> string \<Rightarrow> event list \<Rightarrow> (exn + soup option) \<times> event list" where
  "fetch_html env url h =
     (case can_fetch env url ''*'' h of
        (Inl e, ev) \<Rightarrow> (Inl e, ev)
      | (Inr False, ev) \<Rightarrow> (Inr None, ev @ [skipping url])
      | (Inr True, ev) \<Rightarrow>
          (let ev2 = ev @ [Requests_get url headers 10] in
           case requests_get env (h @ ev) url headers 10 of
             Inl e \<Rightarrow> (Inr None, ev2 @ [failed_to_fetch url e])
           | Inr response \<Rightarrow>
               (case raise_for_status response of
                  Some e \<Rightarrow> (Inr None, ev2 @ [failed_to_fetch url e])
                | None \<Rightarrow>
                    (let ev3 = ev2 @ [Sleep_uniform 1 3] in
                     case html_parser env (resp_text response) of
                       Inl e \<Rightarrow> (Inr None, ev3 @ [failed_to_fetch url e])
                     | Inr sp \<Rightarrow> (Inr (Some sp), ev3)))))"

definition keyword_rejects :: "string option \<Rightarrow> string \<Rightarrow> bool" where
  "keyword_rejects keyword title =
     (case keyword of
        None \<Rightarrow> False
      | Some k \<Rightarrow> k \<noteq> [] \<and> \<not> str_contains (str_lower title) (str_lower k))"

text \<open>
  \<open>keyword_rejects keyword title\<close> is the condition
  \<^verbatim>\<open>keyword and keyword.lower() not in title.lower()\<close>.
  \<open>scrape_item\<close> is the body of the loop over \<^verbatim>\<open>soup.select("a")\<close>: the record to
  append, if any, or the exception of \<^verbatim>\<open>urljoin\<close>.
\<close>

definition scrape_item ::
  "env \<Rightarrow> string \<Rightarrow> string \<Rightarrow> string option \<Rightarrow> anchor \<Rightarrow> exn + headline option" where
  "scrape_item env source_name url keyword item =
     (let title = get_text item in
      case href item of
        None \<Rightarrow> Inr None
      | Some link \<Rightarrow>
          if title = [] \<or> link = [] then Inr None
          else (case urljoin env url link of
                  Inl e \<Rightarrow> Inl e
                | Inr full_url \<Rightarrow>
                    if keyword_rejects keyword title then Inr None
                    else Inr (Some \<lparr>h_source = source_name, h_title = title,
                                    h_url = full_url, h_time = None\<rparr>)))"

fun headlines_loop ::
  "env \<Rightarrow> string \<Rightarrow> string \<Rightarrow> string option \<Rightarrow> anchor list \<Rightarrow> headline list
     \<Rightarrow> exn + headline list" where
  "headlines_loop env source_name url keyword [] headlines = Inr headlines"
| "headlines_loop env source_name url keyword (item # items) headlines =
     (case scrape_item env source_name url keyword item of
        Inl e \<Rightarrow> Inl e
      | Inr None \<Rightarrow> headlines_loop env source_name url keyword items headlines
      | Inr (Some r) \<Rightarrow> headlines_loop env source_name url keyword items (headlines @ [r]))"

definition scraping :: "string \<Rightarrow> event" where
  "scraping source_name = Log INFO (''Scraping '' @ source_name @ ''...'')"

definition found :: "nat \<Rightarrow> string \<Rightarrow> event" where
  "found n source_name =
     Log INFO (''Found '' @ str_of_nat n @ '' headlines from '' @ source_name @ ''.'')"

definition scrape_headlines ::
  "env \<Rightarrow> string \<Rightarrow> string \<Rightarrow> string option \<Rightarrow> event list
     \<Rightarrow> (exn + headline list) \<times> event list" where
  "scrape_headlines env source_name url keyword h =
     (let ev0 = [scraping source_name] in
      case fetch_html env url (h @ ev0) of
        (Inl e, ev) \<Rightarrow> (Inl e, ev0 @ ev)
      | (Inr None, ev) \<Rightarrow> (Inr [], ev0 @ ev)
      | (Inr (Some sp), ev) \<Rightarrow>
          (case headlines_loop env source_name url keyword (select_a sp) [] of
             Inl e \<Rightarrow> (Inl e, ev0 @ ev)
           | Inr headlines \<Rightarrow>
               (Inr headlines, ev0 @ ev @ [found (length headlines) source_name])))"

subsection \<open>Persistence\<close>

text \<open>
  \<^verbatim>\<open>json.dump(data, f, ensure_ascii=False, indent=2)\<close> of CPython 3.11
  (\<^verbatim>\<open>Lib/json/encoder.py\<close>) on a list of dictionaries whose values are strings or
  \<^verbatim>\<open>None\<close>: \<open>escape_char\<close> is \<^verbatim>\<open>ESCAPE_DCT\<close> applied where \<^verbatim>\<open>ESCAPE\<close> matches.
\<close>

definition hex_digit :: "nat \<Rightarrow> char" where
  "hex_digit d = (if d < 10 then char_of (48 + d) else char_of (87 + d))"

definition escape_char :: "char \<Rightarrow> string" where
  "escape_char c = (let n = (of_char c :: nat) in
     if n = 0x5C then [CHR 0x5C, CHR 0x5C]
     else if n = 0x22 then [CHR 0x5C, CHR 0x22]
     else if n = 8 then [CHR 0x5C, CHR ''b'']
     else if n = 12 then [CHR 0x5C, CHR ''f'']
     else if n = 10 then [CHR 0x5C, CHR ''n'']
     else if n = 13 then [CHR 0x5C, CHR ''r'']
     else if n = 9 then [CHR 0x5C, CHR ''t'']
     else if n < 32 then
       [CHR 0x5C, CHR ''u'', CHR ''0'', CHR ''0'', hex_digit (n div 16), hex_digit (n mod 16)]
     else [c])"

definition encode_basestring :: "string \<Rightarrow> string" where
  "encode_basestring s = CHR 0x22 # concat (map escape_char s) @ [CHR 0x22]"

definition newline_indent :: "nat \<Rightarrow> string" where
  "newline_indent lvl = CHR 0x0A # replicate (2 * lvl) CHR '' ''"

definition encode_value :: "string option \<Rightarrow> string" where
  "encode_value v = (case v of None \<Rightarrow> ''null'' | Some s \<Rightarrow> encode_basestring s)"

definition encode_item :: "string \<times> string option \<Rightarrow> string" where
  "encode_item kv = encode_basestring (fst kv) @ '': '' @ encode_value (snd kv)"

definition iterencode_dict :: "(string \<times> string option) list \<Rightarrow> nat \<Rightarrow> string" where
  "iterencode_dict dct lvl =
     (if dct = [] then ''{}''
      else ''{'' @ newline_indent (lvl + 1)
           @ str_join ('','' @ newline_indent (lvl + 1)) (map encode_item dct)
           @ newline_indent lvl @ ''}'')"

definition iterencode_list :: "(string \<times> string option) list list \<Rightarrow> nat \<Rightarrow> string" where
  "iterencode_list lst lvl =
     (if lst = [] then ''[]''
      else ''['' @ newline_indent (lvl + 1)
           @ str_join ('','' @ newline_indent (lvl + 1))
               (map (\<lambda>d. iterencode_dict d (lvl + 1)) lst)
           @ newline_indent lvl @ '']'')"

text \<open>The dictionary built by \<^verbatim>\<open>scrape_headlines\<close>, in insertion order.\<close>

definition headline_dict :: "headline \<Rightarrow> (string \<times> string option) list" where
  "headline_dict r =
     [(''source'', Some (h_source r)), (''title'', Some (h_title r)),
      (''url'', Some (h_url r)), (''time'', h_time r)]"

definition json_dump :: "headline list \<Rightarrow> string" where
  "json_dump data = iterencode_list (map headline_dict data) 0"

text \<open>
  A path is the string it was made from: \<open>save_results\<close> takes \<^verbatim>\<open>args.output\<close> itself
  for \<^verbatim>\<open>Path(args.output)\<close>, and \<open>path_parent\<close> of the environment is
  \<^verbatim>\<open>output.parent\<close>. The text written to the file is recorded as text; its encoding
  as UTF-8 is left to the file system.
\<close>

definition results_saved :: "string \<Rightarrow> event" where
  "results_saved output = Log INFO (''Results saved to '' @ output)"

definition unsupported_format :: event where
  "unsupported_format =
     Log ERROR (''Unsupported format. Use '' @ [CHR 0x27] @ ''json'' @ [CHR 0x27] @ '' or ''
                @ [CHR 0x27] @ ''csv'' @ [CHR 0x27] @ ''.'')"

definition save_results ::
  "env \<Rightarrow> headline list \<Rightarrow> string \<Rightarrow> string \<Rightarrow> event list \<Rightarrow> (exn + unit) \<times> event list" where
  "save_results env data output fmt h =
     (let parent = path_parent env output in
      case mkdir_error env h parent of
        Some e \<Rightarrow> (Inl e, [Mkdir parent])
      | None \<Rightarrow>
          if fmt = ''json'' then
            (case open_error env (h @ [Mkdir parent]) output of
               Some e \<Rightarrow> (Inl e, [Mkdir parent])
             | None \<Rightarrow>
                 (Inr (), [Mkdir parent, Write_file output (json_dump data),
                           results_saved output]))
          else if fmt = ''csv'' then
            (case open_error env (h @ [Mkdir parent]) output of
               Some e \<Rightarrow> (Inl e, [Mkdir parent])
             | None \<Rightarrow>
                 (Inr (), [Mkdir parent, Write_file output (to_csv env data),
                           results_saved output]))
          else (Inr (), [Mkdir parent, unsupported_format]))"

subsection \<open>The command line driver\<close>

record args =
  arg_sources :: "string list"
  arg_keyword :: "string option"
  arg_output :: string
  arg_format :: string

definition invalid_source :: "string \<Rightarrow> event" where
  "invalid_source source_entry = Log WARNING (''Invalid source format: '' @ source_entry)"

text \<open>
  The loop of \<^verbatim>\<open>main\<close> over \<^verbatim>\<open>args.sources\<close>; \<open>all_headlines\<close> is the accumulator
  that \<^verbatim>\<open>extend\<close> grows.
\<close>

fun main_loop ::
  "env \<Rightarrow> string option \<Rightarrow> string list \<Rightarrow> headline list \<Rightarrow> event list
     \<Rightarrow> (exn + headline list) \<times> event list" where
  "main_loop env keyword [] all_headlines h = (Inr all_headlines, [])"
| "main_loop env keyword (source_entry # rest) all_headlines h =
     (if CHR ''='' \<notin> set source_entry then
        (let ev = [invalid_source source_entry];
             (r, evs) = main_loop env keyword rest all_headlines (h @ ev)
         in (r, ev @ evs))
      else
        (let (name, url) = split_once CHR ''='' source_entry in
         case scrape_headlines env (str_strip name) (str_strip url) keyword h of
           (Inl e, ev) \<Rightarrow> (Inl e, ev)
         | (Inr data, ev) \<Rightarrow>
             (let (r, evs) = main_loop env keyword rest (all_headlines @ data) (h @ ev)
              in (r, ev @ evs))))"

declare main_loop.simps(2) [simp del]

definition no_headlines :: event where
  "no_headlines = Log WARNING ''No headlines found.''"

definition main :: "env \<Rightarrow> args \<Rightarrow> event list \<Rightarrow> (exn + unit) \<times> event list" where
  "main env a h =
     (case main_loop env (arg_keyword a) (arg_sources a) [] h of
        (Inl e, ev) \<Rightarrow> (Inl e, ev)
      | (Inr all_headlines, ev) \<Rightarrow>
          if all_headlines = [] then (Inr (), ev @ [no_headlines])
          else (let (r, ev2) = save_results env all_headlines (arg_output a) (arg_format a)
                                 (h @ ev)
                in (r, ev @ ev2)))"

subsection \<open>Observations on the events\<close>

fun is_requests_get :: "event \<Rightarrow> bool" where
  "is_requests_get (Requests_get u hs t) = True"
| "is_requests_get _ = False"

fun is_sleep :: "event \<Rightarrow> bool" where
  "is_sleep (Sleep_uniform a b) = True"
| "is_sleep _ = False"

fun is_persist :: "event \<Rightarrow> bool" where
  "is_persist (Mkdir p) = True"
| "is_persist (Write_file p s) = True"
| "is_persist _ = False"

fun is_scraping :: "event \<Rightarrow> bool" where
  "is_scraping (Log INFO m) = prefix ''Scraping '' m"
| "is_scraping _ = False"

fun is_invalid_source :: "event \<Rightarrow> bool" where
  "is_invalid_source (Log WARNING m) = prefix ''Invalid source format: '' m"
| "is_invalid_source _ = False"

text \<open>
  The page request went through: the policy allowed it, \<^verbatim>\<open>requests.get\<close> returned a
  response, and \<^verbatim>\<open>raise_for_status\<close> did not raise.
\<close>

definition get_succeeded :: "env \<Rightarrow> string \<Rightarrow> event list \<Rightarrow> bool" where
  "get_succeeded env url h =
     (case can_fetch env url ''*'' h of
        (Inr True, ev) \<Rightarrow>
          (case requests_get env (h @ ev) url headers 10 of
             Inl e \<Rightarrow> False
           | Inr response \<Rightarrow> raise_for_status response = None)
      | _ \<Rightarrow> False)"

text \<open>
  The policy file could not be obtained: the URL of the policy file does not parse, the
  request raises, the server answers 401 or 403 or an error status outside 400..499, or
  the body is not UTF-8.
\<close>

definition policy_unavailable :: "env \<Rightarrow> event list \<Rightarrow> string \<Rightarrow> bool" where
  "policy_unavailable env h robots_url =
     (urlparse_error env robots_url \<noteq> None \<or>
      (case urlopen env h robots_url of
         URLError e \<Rightarrow> True
       | HTTPError code \<Rightarrow> code = 401 \<or> code = 403 \<or> code < 400 \<or> 500 \<le> code
       | Body raw \<Rightarrow> (case utf8_decode env raw of Inl e \<Rightarrow> True | Inr txt \<Rightarrow> False)))"

text \<open>
  \<open>source_spec\<close> is the pair \<^verbatim>\<open>(name.strip(), url.strip())\<close> that \<^verbatim>\<open>main\<close> passes to
  \<^verbatim>\<open>scrape_headlines\<close> for an entry. \<open>source_outputs\<close> is what \<^verbatim>\<open>scrape_headlines\<close>
  returns for each source of a list, the sources run one after the other;
  \<open>concat_outputs\<close> concatenates them, the first exception ending the run.
\<close>

definition source_spec :: "string \<Rightarrow> string \<times> string" where
  "source_spec source_entry =
     (str_strip (fst (split_once CHR ''='' source_entry)),
      str_strip (snd (split_once CHR ''='' source_entry)))"

fun source_outputs ::
  "env \<Rightarrow> string option \<Rightarrow> (string \<times> string) list \<Rightarrow> event list
     \<Rightarrow> (exn + headline list) list" where
  "source_outputs env keyword [] h = []"
| "source_outputs env keyword (spec # specs) h =
     (let (r, ev) = scrape_headlines env (fst spec) (snd spec) keyword h
      in r # source_outputs env keyword specs (h @ ev))"

fun concat_outputs :: "(exn + headline list) list \<Rightarrow> exn + headline list" where
  "concat_outputs [] = Inr []"
| "concat_outputs (Inl e # rs) = Inl e"
| "concat_outputs (Inr d # rs) =
     (case concat_outputs rs of Inl e \<Rightarrow> Inl e | Inr ds \<Rightarrow> Inr (d @ ds))"

text \<open>
  A keyword occurs in a title as a case-insensitive substring: at some position of the
  title, every character of the keyword is the character of the title or its other case.
\<close>

definition swap_case :: "char \<Rightarrow> char" where
  "swap_case c = (let n = (of_char c :: nat) in
     if (65 \<le> n \<and> n \<le> 90) \<or> (192 \<le> n \<and> n \<le> 222 \<and> n \<noteq> 215) then char_of (n + 32)
     else if (97 \<le> n \<and> n \<le> 122) \<or> (224 \<le> n \<and> n \<le> 254 \<and> n \<noteq> 247) then char_of (n - 32)
     else c)"

definition same_letter :: "char \<Rightarrow> char \<Rightarrow> bool" where
  "same_letter a b = (a = b \<or> swap_case a = b)"

fun ci_prefix :: "string \<Rightarrow> string \<Rightarrow> bool" where
  "ci_prefix [] t = True"
| "ci_prefix (a # k) [] = False"
| "ci_prefix (a # k) (b # t) = (same_letter a b \<and> ci_prefix k t)"

fun ci_substring :: "string \<Rightarrow> string \<Rightarrow> bool" where
  "ci_substring k [] = (k = [])"
| "ci_substring k (c # cs) = (ci_prefix k (c # cs) \<or> ci_substring k cs)"

subsection \<open>A small world for the examples\<close>

text \<open>
  Four sites. \<open>example.com\<close> serves a policy file that allows everything and a page
  with three links; \<open>closed.example\<close> disallows everything; \<open>missing.example\<close> has no
  policy file (404); \<open>down.example\<close> does not answer. \<open>demo_urljoin\<close> gives the values
  of \<^verbatim>\<open>urljoin\<close> at the arguments the examples use.
\<close>

definition demo_urljoin :: "string \<Rightarrow> string \<Rightarrow> exn + string" where
  "demo_urljoin base u =
     (if u = ''robots.txt'' then Inr (base @ ''/robots.txt'')
      else if u = ''http://['' then Inl (Exception ''Invalid IPv6 URL'')
      else if take 1 u = ''/'' then Inr (''https://example.com'' @ u)
      else Inr u)"

definition allow_all_txt :: string where
  "allow_all_txt = ''User-agent: *'' @ [CHR 0x0A] @ ''Allow: /''"

definition disallow_all_txt :: string where
  "disallow_all_txt = ''User-agent: *'' @ [CHR 0x0A] @ ''Disallow: /''"

definition demo_urlopen :: "event list \<Rightarrow> string \<Rightarrow> urlopen_result" where
  "demo_urlopen h u =
     (if u = ''https://example.com/robots.txt'' then Body allow_all_txt
      else if u = ''https://closed.example/robots.txt'' then Body disallow_all_txt
      else if u = ''https://missing.example/robots.txt'' then HTTPError 404
      else URLError (Exception ''timed out''))"

definition demo_rules :: "string \<Rightarrow> string \<Rightarrow> string \<Rightarrow> exn + bool" where
  "demo_rules txt agent u = Inr (txt \<noteq> disallow_all_txt)"

definition tech_page :: string where
  "tech_page = ''<a href=/x>AI breakthrough</a><a href=/y>Sports update</a><a>top</a>''"

definition tech_soup :: soup where
  "tech_soup = Soup [\<lparr>get_text = ''AI breakthrough'', href = Some ''/x''\<rparr>,
                     \<lparr>get_text = ''Sports update'', href = Some ''/y''\<rparr>,
                     \<lparr>get_text = ''top'', href = None\<rparr>]"

definition world_soup :: soup where
  "world_soup = Soup [\<lparr>get_text = ''Stocks Rally'', href = Some ''/z''\<rparr>]"

definition demo_get ::
  "event list \<Rightarrow> string \<Rightarrow> (string \<times> string) list \<Rightarrow> nat \<Rightarrow> exn + response" where
  "demo_get h u hs t =
     (if u = ''https://example.com/tech'' then
        Inr \<lparr>status_code = 200, reason = ''OK'', resp_url = u, resp_text = tech_page\<rparr>
      else if u = ''https://example.com/world'' then
        Inr \<lparr>status_code = 200, reason = ''OK'', resp_url = u, resp_text = ''world''\<rparr>
      else if u = ''https://example.com/gone'' then
        Inr \<lparr>status_code = 404, reason = ''Not Found'', resp_url = u, resp_text = []\<rparr>
      else Inl (Exception ''connection refused''))"

definition demo_html :: "string \<Rightarrow> exn + soup" where
  "demo_html txt = (if txt = tech_page then Inr tech_soup else Inr world_soup)"

definition demo :: env where
  "demo = \<lparr>urljoin = demo_urljoin, urlparse_error = (\<lambda>u. None), urlopen = demo_urlopen,
            utf8_decode = Inr, rules_can_fetch = demo_rules, requests_get = demo_get,
            html_parser = demo_html, path_parent = (\<lambda>p. ''.''),
            mkdir_error = (\<lambda>h p. None), open_error = (\<lambda>h p. None),
            to_csv = (\<lambda>d. [])\<rparr>"

text \<open>Rules that allow the agent \<open>*\<close> what \<open>demo_rules\<close> allow, and nothing to a named agent.\<close>

definition wildcard_only :: "string \<Rightarrow> string \<Rightarrow> string \<Rightarrow> exn + bool" where
  "wildcard_only txt agent u = (if agent = ''*'' then demo_rules txt agent u else Inr False)"

text \<open>
  \<open>has_link\<close> is \<^verbatim>\<open>bool(link)\<close> for \<^verbatim>\<open>link = item.get("href")\<close>. \<open>keyword_accepts\<close> is
  the keyword filter as the specification words it: no filtering without a keyword or
  with an empty one, otherwise the keyword is a case-insensitive substring of the title.
\<close>

definition has_link :: "anchor \<Rightarrow> bool" where
  "has_link item = (case href item of None \<Rightarrow> False | Some link \<Rightarrow> link \<noteq> [])"

definition keyword_accepts :: "string option \<Rightarrow> string \<Rightarrow> bool" where
  "keyword_accepts keyword title =
     (case keyword of None \<Rightarrow> True | Some k \<Rightarrow> k = [] \<or> ci_substring k title)"

subsection \<open>Reading the JSON file back\<close>

text \<open>
  \<^verbatim>\<open>json.loads\<close> of CPython 3.11 (\<^verbatim>\<open>Lib/json/decoder.py\<close>: \<^verbatim>\<open>scanstring\<close>,
  \<^verbatim>\<open>JSONObject\<close>, \<^verbatim>\<open>JSONArray\<close> and \<^verbatim>\<open>JSONDecoder.decode\<close>) on the texts whose
  value is an array of objects with string or null values. A position in the text is the
  rest of the text from there on. \<open>None\<close> is a \<^verbatim>\<open>JSONDecodeError\<close>, or a text outside
  this fragment (numbers, booleans, nested values, escapes of code points from 256 on).
  An object is returned as the list of its pairs in the order of the text; Python builds
  the dictionary from that list. The functions that loop are defined with the proof that
  each round consumes text.
\<close>

definition is_ws :: "char \<Rightarrow> bool" where
  "is_ws c = (c = CHR '' '' \<or> c = CHR 0x09 \<or> c = CHR 0x0A \<or> c = CHR 0x0D)"

definition skip_ws :: "string \<Rightarrow> string" where
  "skip_ws s = dropWhile is_ws s"

definition hex_value :: "char \<Rightarrow> nat option" where
  "hex_value c = (let n = (of_char c :: nat) in
     if 48 \<le> n \<and> n \<le> 57 then Some (n - 48)
     else if 97 \<le> n \<and> n \<le> 102 then Some (n - 87)
     else if 65 \<le> n \<and> n \<le> 70 then Some (n - 55)
     else None)"

fun decode_uXXXX :: "string \<Rightarrow> (nat \<times> string) option" where
  "decode_uXXXX (a # b # c # d # rest) =
     (case (hex_value a, hex_value b, hex_value c, hex_value d) of
        (Some x, Some y, Some z, Some w) \<Rightarrow> Some (((x * 16 + y) * 16 + z) * 16 + w, rest)
      | _ \<Rightarrow> None)"
| "decode_uXXXX _ = None"

definition backslash :: "char \<Rightarrow> char option" where
  "backslash esc =
     (if esc = CHR 0x22 then Some (CHR 0x22)
      else if esc = CHR 0x5C then Some (CHR 0x5C)
      else if esc = CHR ''/'' then Some (CHR ''/'')
      else if esc = CHR ''b'' then Some (CHR 0x08)
      else if esc = CHR ''f'' then Some (CHR 0x0C)
      else if esc = CHR ''n'' then Some (CHR 0x0A)
      else if esc = CHR ''r'' then Some (CHR 0x0D)
      else if esc = CHR ''t'' then Some (CHR 0x09)
      else None)"

lemma decode_uXXXX_length: "decode_uXXXX s = Some (u, r) \<Longrightarrow> length r < length s"
  by (induction s rule: decode_uXXXX.induct) (auto split: option.splits)

function scanstring :: "string \<Rightarrow> (string \<times> string) option" where
  "scanstring [] = None"
| "scanstring (c # cs) =
     (if c = CHR 0x22 then Some ([], cs)
      else if c = CHR 0x5C then
        (case cs of
           [] \<Rightarrow> None
         | esc # cs' \<Rightarrow>
             if esc = CHR ''u'' then
               (case decode_uXXXX cs' of
                  None \<Rightarrow> None
                | Some (uni, rest) \<Rightarrow>
                    if uni < 256 then
                      (case scanstring rest of
                         None \<Rightarrow> None
                       | Some (v, r) \<Rightarrow> Some (char_of uni # v, r))
                    else None)
             else
               (case backslash esc of
                  None \<Rightarrow> None
                | Some ch \<Rightarrow>
                    (case scanstring cs' of
                       None \<Rightarrow> None
                     | Some (v, r) \<Rightarrow> Some (ch # v, r))))
      else if (of_char c :: nat) < 32 then None
      else (case scanstring cs of
              None \<Rightarrow> None
            | Some (v, r) \<Rightarrow> Some (c # v, r)))"
  by pat_completeness auto
termination
  by (relation "measure length") (auto dest: decode_uXXXX_length)

declare scanstring.simps(2) [simp del]

lemma scanstring_Cons:
  assumes "scanstring (c # cs) = Some (v, r)"
  shows "(c = CHR 0x22 \<and> r = cs)
       \<or> (\<exists>cs' u rest v'. cs = CHR ''u'' # cs' \<and> decode_uXXXX cs' = Some (u, rest)
                           \<and> scanstring rest = Some (v', r))
       \<or> (\<exists>e cs' v'. cs = e # cs' \<and> scanstring cs' = Some (v', r))
       \<or> (\<exists>v'. scanstring cs = Some (v', r))"
proof (cases "c = CHR 0x22")
  case True
  with assms show ?thesis by (simp add: scanstring.simps(2))
next
  case nq: False
  show ?thesis
  proof (cases "c = CHR 0x5C")
    case False
    with nq assms show ?thesis
      by (simp add: scanstring.simps(2) split: if_splits option.splits prod.splits)
  next
    case True
    show ?thesis
    proof (cases cs)
      case Nil
      with True nq assms show ?thesis by (simp add: scanstring.simps(2))
    next
      case (Cons e cs')
      show ?thesis
      proof (cases "e = CHR ''u''")
        case True
        with \<open>c = CHR 0x5C\<close> Cons assms show ?thesis
          by (simp add: scanstring.simps(2) split: if_splits option.splits prod.splits)
      next
        case False
        with \<open>c = CHR 0x5C\<close> Cons assms show ?thesis
          by (simp add: scanstring.simps(2) split: if_splits option.splits prod.splits)
      qed
    qed
  qed
qed

lemma scanstring_length: "scanstring s = Some (v, r) \<Longrightarrow> length r < length s"
proof (induction "length s" arbitrary: s v r rule: less_induct)
  case less
  have IH: "length r' < length t"
    if "scanstring t = Some (v', r')" "length t < length s" for t v' r'
    using less.hyps [OF that(2) that(1)] .
  show ?case
  proof (cases s)
    case Nil
    with less.prems show ?thesis by simp
  next
    case (Cons c cs)
    with less.prems have sc: "scanstring (c # cs) = Some (v, r)" by simp
    from scanstring_Cons [OF sc]
    consider (quote) "r = cs"
      | (uni) cs' u rest v' where "cs = CHR ''u'' # cs'"
          "decode_uXXXX cs' = Some (u, rest)" "scanstring rest = Some (v', r)"
      | (esc) e cs' v' where "cs = e # cs'" "scanstring cs' = Some (v', r)"
      | (plain) v' where "scanstring cs = Some (v', r)"
      by blast
    then show ?thesis
    proof cases
      case quote
      with Cons show ?thesis by simp
    next
      case uni
      from decode_uXXXX_length [OF uni(2)] uni(1) Cons have "length rest < length s" by simp
      from IH [OF uni(3) this] this show ?thesis by simp
    next
      case esc
      with Cons have "length cs' < length s" by simp
      from IH [OF esc(2) this] this show ?thesis by simp
    next
      case plain
      from Cons have "length cs < length s" by simp
      from IH [OF plain this] this show ?thesis by simp
    qed
  qed
qed

definition scan_value :: "string \<Rightarrow> (string option \<times> string) option" where
  "scan_value s =
     (case s of
        [] \<Rightarrow> None
      | c # cs \<Rightarrow>
          if c = CHR 0x22 then
            (case scanstring cs of None \<Rightarrow> None | Some (v, r) \<Rightarrow> Some (Some v, r))
          else if take 4 s = ''null'' then Some (None, drop 4 s)
          else None)"

lemma skip_ws_length: "length (skip_ws s) \<le> length s"
  by (simp add: skip_ws_def length_dropWhile_le)

lemma scan_value_length: "scan_value s = Some (v, r) \<Longrightarrow> length r < length s"
  by (auto simp add: scan_value_def split: list.splits if_splits option.splits
      dest: scanstring_length)


lemma skip_ws_Cons_length: "skip_ws s = c # r \<Longrightarrow> length r < length s"
  using skip_ws_length [of s] by simp

lemma scan_value_skip_length: "scan_value (skip_ws s) = Some (v, r) \<Longrightarrow> length r < length s"
  using skip_ws_length [of s] scan_value_length [of "skip_ws s" v r] by simp

function object_pairs :: "string \<Rightarrow> ((string \<times> string option) list \<times> string) option" where
  "object_pairs s =
     (case scanstring s of
        None \<Rightarrow> None
      | Some (key, s1) \<Rightarrow>
          (case skip_ws s1 of
             [] \<Rightarrow> None
           | c # s2 \<Rightarrow>
               if c \<noteq> CHR '':'' then None
               else
                 (case scan_value (skip_ws s2) of
                    None \<Rightarrow> None
                  | Some (v, s3) \<Rightarrow>
                      (case skip_ws s3 of
                         [] \<Rightarrow> None
                       | d # s4 \<Rightarrow>
                           if d = CHR ''}'' then Some ([(key, v)], s4)
                           else if d \<noteq> CHR '','' then None
                           else
                             (case skip_ws s4 of
                                [] \<Rightarrow> None
                              | q # s5 \<Rightarrow>
                                  if q \<noteq> CHR 0x22 then None
                                  else
                                    (case object_pairs s5 of
                                       None \<Rightarrow> None
                                     | Some (ps, r) \<Rightarrow> Some ((key, v) # ps, r)))))))"
  by pat_completeness auto
termination
  by (relation "measure length")
    (auto dest!: scanstring_length skip_ws_Cons_length scan_value_skip_length)

declare object_pairs.simps [simp del]

lemma object_pairs_length: "object_pairs s = Some (ps, r) \<Longrightarrow> length r < length s"
proof (induction s arbitrary: ps r rule: object_pairs.induct)
  case (1 s)
  from "1.prems" obtain key s1 where k: "scanstring s = Some (key, s1)"
    by (subst (asm) object_pairs.simps) (auto split: option.splits)
  from "1.prems" k obtain s2 where s2: "skip_ws s1 = CHR '':'' # s2"
    by (subst (asm) object_pairs.simps) (auto split: list.splits if_splits)
  from "1.prems" k s2 obtain v s3 where v: "scan_value (skip_ws s2) = Some (v, s3)"
    by (subst (asm) object_pairs.simps) (auto split: option.splits)
  from "1.prems" k s2 v obtain d s4 where s4: "skip_ws s3 = d # s4"
    by (subst (asm) object_pairs.simps) (auto split: list.splits)
  from scanstring_length [OF k] have a: "length s1 < length s" .
  from s2 skip_ws_length [of s1] have b: "length s2 < length s1" by simp
  from scan_value_length [OF v] skip_ws_length [of s2] have c: "length s3 < length s2" by simp
  from s4 skip_ws_length [of s3] have d: "length s4 < length s3" by simp
  show ?case
  proof (cases "d = CHR ''}''")
    case True
    with "1.prems" k s2 v s4 have "r = s4"
      by (subst (asm) object_pairs.simps) simp
    with a b c d show ?thesis by simp
  next
    case False
    with "1.prems" k s2 v s4 have comma: "d = CHR '',''"
      by (subst (asm) object_pairs.simps) (auto split: if_splits)
    from "1.prems" k s2 v s4 False comma obtain s5 where s5: "skip_ws s4 = CHR 0x22 # s5"
      by (subst (asm) object_pairs.simps) (auto split: list.splits if_splits)
    from "1.prems" k s2 v s4 False comma s5 obtain ps' where r: "object_pairs s5 = Some (ps', r)"
      by (subst (asm) object_pairs.simps) (auto split: option.splits)
    from s5 skip_ws_length [of s4] have e: "length s5 < length s4" by simp
    have "length r < length s5"
      using "1.IH" [OF k refl s2 _ v refl s4 False _ s5 _ r] comma by simp
    with a b c d e show ?thesis by simp
  qed
qed

definition json_object :: "string \<Rightarrow> ((string \<times> string option) list \<times> string) option" where
  "json_object s =
     (case skip_ws s of
        [] \<Rightarrow> None
      | c # cs \<Rightarrow>
          if c = CHR ''}'' then Some ([], cs)
          else if c = CHR 0x22 then object_pairs cs
          else None)"

lemma json_object_length: "json_object s = Some (ps, r) \<Longrightarrow> length r < length s"
  using skip_ws_length [of s]
  by (auto simp add: json_object_def split: list.splits if_splits dest!: object_pairs_length)

function array_values ::
  "string \<Rightarrow> ((string \<times> string option) list list \<times> string) option" where
  "array_values s =
     (case s of
        [] \<Rightarrow> None
      | c # cs \<Rightarrow>
          if c \<noteq> CHR ''{'' then None
          else
            (case json_object cs of
               None \<Rightarrow> None
             | Some (obj, s1) \<Rightarrow>
                 (case skip_ws s1 of
                    [] \<Rightarrow> None
                  | d # s2 \<Rightarrow>
                      if d = CHR '']'' then Some ([obj], s2)
                      else if d \<noteq> CHR '','' then None
                      else
                        (case array_values (skip_ws s2) of
                           None \<Rightarrow> None
                         | Some (objs, r) \<Rightarrow> Some (obj # objs, r)))))"
  by pat_completeness auto
termination
  by (relation "measure length")
    (auto dest!: json_object_length skip_ws_Cons_length intro: le_less_trans [OF skip_ws_length])

declare array_values.simps [simp del]

definition json_array :: "string \<Rightarrow> ((string \<times> string option) list list \<times> string) option" where
  "json_array s =
     (case skip_ws s of
        [] \<Rightarrow> None
      | c # cs \<Rightarrow> if c = CHR '']'' then Some ([], cs) else array_values (c # cs))"

definition json_loads :: "string \<Rightarrow> (string \<times> string option) list list option" where
  "json_loads s =
     (case skip_ws s of
        [] \<Rightarrow> None
      | c # cs \<Rightarrow>
          if c \<noteq> CHR ''['' then None
          else
            (case json_array cs of
               None \<Rightarrow> None
             | Some (objs, r) \<Rightarrow> if skip_ws r = [] then Some objs else None))"

section \<open>The policy gate\<close>

lemma can_fetch_no_get: "filter is_requests_get (snd (can_fetch env url ua h)) = []"
  by (simp add: can_fetch_def could_not_read_def Let_def split: sum.splits)

lemma can_fetch_no_sleep: "filter is_sleep (snd (can_fetch env url ua h)) = []"
  by (simp add: can_fetch_def could_not_read_def Let_def split: sum.splits)

lemma can_fetch_no_persist: "filter is_persist (snd (can_fetch env url ua h)) = []"
  by (simp add: can_fetch_def could_not_read_def Let_def split: sum.splits)

lemma can_fetch_no_scraping: "filter is_scraping (snd (can_fetch env url ua h)) = []"
  by (simp add: can_fetch_def could_not_read_def Let_def split: sum.splits)

lemma can_fetch_no_invalid: "filter is_invalid_source (snd (can_fetch env url ua h)) = []"
  by (simp add: can_fetch_def could_not_read_def Let_def split: sum.splits)

text \<open>
  Claim C1, as the code has it. When the address of the policy file is computed and the
  policy file cannot be obtained (its URL does not parse, the request raises as on a
  network failure, the server answers 401, 403 or an error status outside 400..499, or
  the body is not UTF-8), \<open>can_fetch\<close> returns false, for every user agent.
\<close>

theorem can_fetch_unavailable_denies:
  assumes "urljoin env (str_join ''/'' (take 3 (str_split CHR ''/'' url))) ''robots.txt''
             = Inr robots_url"
    and "policy_unavailable env h robots_url"
  shows "fst (can_fetch env url user_agent h) = Inr False"
  using assms
  by (auto simp add: can_fetch_def policy_unavailable_def rp_set_url_def rp_read_def
      rp_can_fetch_def RobotFileParser_def Let_def
      split: sum.splits option.splits urlopen_result.splits if_splits)

theorem can_fetch_unavailable_denies_witness:
  "urljoin demo (str_join ''/'' (take 3 (str_split CHR ''/'' ''https://down.example/news'')))
       ''robots.txt'' = Inr ''https://down.example/robots.txt''
   \<and> policy_unavailable demo [] ''https://down.example/robots.txt''
   \<and> fst (can_fetch demo ''https://down.example/news'' ''*'' []) = Inr False"
proof -
  have a: "urljoin demo (str_join ''/'' (take 3 (str_split CHR ''/'' ''https://down.example/news'')))
       ''robots.txt'' = Inr ''https://down.example/robots.txt''"
    by (simp add: demo_def demo_urljoin_def)
  have b: "policy_unavailable demo [] ''https://down.example/robots.txt''"
    by (simp add: policy_unavailable_def demo_def demo_urlopen_def)
  from can_fetch_unavailable_denies [OF a b] a b show ?thesis by blast
qed

text \<open>
  Claim C1, as the spec states it, fails: a site that answers the request for its policy
  file with 404 (a non-200 response) is allowed, because \<^verbatim>\<open>RobotFileParser.read\<close>
  catches the HTTP error itself and sets \<^verbatim>\<open>allow_all\<close>; no exception reaches the handler
  of \<open>can_fetch\<close>.
\<close>

theorem can_fetch_404_allows:
  "urlopen demo [] ''https://missing.example/robots.txt'' = HTTPError 404
   \<and> fst (can_fetch demo ''https://missing.example/news'' ''*'' []) = Inr True"
  by (simp add: can_fetch_def demo_def demo_urljoin_def rp_set_url_def RobotFileParser_def
      rp_read_def demo_urlopen_def rp_can_fetch_def)

section \<open>The fetcher\<close>

text \<open>
  Claim C2. When the policy gate denies a URL (\<open>can_fetch\<close> returns false for the agent
  \<open>*\<close>), \<open>fetch_html\<close> returns no content, calls \<^verbatim>\<open>requests.get\<close> not at all, and the
  only event it adds to those of the policy check is the warning that the URL is skipped.
\<close>

theorem fetch_html_denied:
  assumes "fst (can_fetch env url ''*'' h) = Inr False"
  shows "fst (fetch_html env url h) = Inr None
       \<and> filter is_requests_get (snd (fetch_html env url h)) = []
       \<and> snd (fetch_html env url h) = snd (can_fetch env url ''*'' h) @ [skipping url]"
proof -
  obtain ev where cf: "can_fetch env url ''*'' h = (Inr False, ev)"
    using assms by (cases "can_fetch env url ''*'' h") auto
  have "filter is_requests_get ev = []"
    using can_fetch_no_get [of env url "''*''" h] cf by simp
  with cf show ?thesis
    by (simp add: fetch_html_def skipping_def)
qed

lemma demo_closed_denied:
  "can_fetch demo ''https://closed.example/news'' ''*'' []
     = (Inr False, [Urlopen ''https://closed.example/robots.txt''])"
  by (simp add: can_fetch_def demo_def demo_urljoin_def rp_set_url_def RobotFileParser_def
      rp_read_def demo_urlopen_def rp_can_fetch_def demo_rules_def)

theorem fetch_html_denied_witness:
  "fst (can_fetch demo ''https://closed.example/news'' ''*'' []) = Inr False
   \<and> fst (fetch_html demo ''https://closed.example/news'' []) = Inr None
   \<and> filter is_requests_get (snd (fetch_html demo ''https://closed.example/news'' [])) = []
   \<and> snd (fetch_html demo ''https://closed.example/news'' [])
       = [Urlopen ''https://closed.example/robots.txt'',
          Log WARNING ''Skipping https://closed.example/news due to robots.txt restrictions.'']"
proof -
  have a: "fst (can_fetch demo ''https://closed.example/news'' ''*'' []) = Inr False"
    by (simp add: demo_closed_denied)
  from fetch_html_denied [OF a] a show ?thesis
    by (simp add: demo_closed_denied skipping_def)
qed

lemma fetch_html_sleeps:
  "filter is_sleep (snd (fetch_html env url h))
     = (if get_succeeded env url h then [Sleep_uniform 1 3] else [])"
proof (cases "can_fetch env url ''*'' h")
  case (Pair r ev)
  have ns: "filter is_sleep ev = []"
    using can_fetch_no_sleep [of env url "''*''" h] Pair by simp
  show ?thesis
    using Pair ns
    by (simp add: fetch_html_def get_succeeded_def skipping_def failed_to_fetch_def Let_def
        split: sum.splits bool.splits option.splits)
qed

lemma demo_allowed:
  "can_fetch demo (''https://example.com/'' @ p) ''*'' h
     = (Inr True, [Urlopen ''https://example.com/robots.txt''])"
  by (simp add: can_fetch_def demo_def demo_urljoin_def rp_set_url_def RobotFileParser_def
      rp_read_def demo_urlopen_def rp_can_fetch_def demo_rules_def allow_all_txt_def
      disallow_all_txt_def)

lemma demo_fetch_tech:
  "fetch_html demo ''https://example.com/tech'' h
     = (Inr (Some tech_soup),
        [Urlopen ''https://example.com/robots.txt'',
         Requests_get ''https://example.com/tech'' headers 10, Sleep_uniform 1 3])"
  using demo_allowed [of "''tech''" h]
  by (simp add: fetch_html_def demo_def demo_get_def raise_for_status_def demo_html_def)

lemma demo_fetch_gone:
  "snd (fetch_html demo ''https://example.com/gone'' h)
     = [Urlopen ''https://example.com/robots.txt'',
         Requests_get ''https://example.com/gone'' headers 10,
         failed_to_fetch ''https://example.com/gone''
           (Exception ''404 Client Error: Not Found for url: https://example.com/gone'')]"
  using demo_allowed [of "''gone''" h]
  apply (simp add: fetch_html_def demo_def demo_get_def raise_for_status_def demo_html_def)
  apply code_simp
  done

lemma demo_get_succeeded:
  "get_succeeded demo ''https://example.com/tech'' []"
  "\<not> get_succeeded demo ''https://example.com/gone'' []"
  "\<not> get_succeeded demo ''https://example.com/nowhere'' []"
  using demo_allowed [of "''tech''" "[]"] demo_allowed [of "''gone''" "[]"]
    demo_allowed [of "''nowhere''" "[]"]
  by (simp_all add: get_succeeded_def demo_def demo_get_def raise_for_status_def)

text \<open>
  Claim C8. \<open>fetch_html\<close> sleeps (\<^verbatim>\<open>time.sleep(random.uniform(1, 3))\<close>) exactly once
  when the page request went through, and not at all when it did not (the policy denied
  it, \<^verbatim>\<open>requests.get\<close> raised as on a timeout or a network error, or the status was
  an error status). When \<open>fetch_html\<close> returns a document, the sleep is its last event,
  directly after the request: the delay is over before the document is returned.
\<close>

theorem politeness_delay:
  "(get_succeeded env url h \<longrightarrow>
      filter is_sleep (snd (fetch_html env url h)) = [Sleep_uniform 1 3])
   \<and> (\<not> get_succeeded env url h \<longrightarrow> filter is_sleep (snd (fetch_html env url h)) = [])
   \<and> (\<forall>sp. fst (fetch_html env url h) = Inr (Some sp) \<longrightarrow>
          get_succeeded env url h
          \<and> snd (fetch_html env url h)
              = snd (can_fetch env url ''*'' h) @ [Requests_get url headers 10, Sleep_uniform 1 3])"
proof -
  have "get_succeeded env url h
        \<and> snd (fetch_html env url h)
            = snd (can_fetch env url ''*'' h) @ [Requests_get url headers 10, Sleep_uniform 1 3]"
    if "fst (fetch_html env url h) = Inr (Some sp)" for sp
    using that
    by (cases "can_fetch env url ''*'' h")
      (auto simp add: fetch_html_def get_succeeded_def Let_def
        split: sum.splits bool.splits option.splits)
  then show ?thesis
    by (simp add: fetch_html_sleeps)
qed

theorem politeness_delay_witness:
  "get_succeeded demo ''https://example.com/tech'' []
   \<and> fst (fetch_html demo ''https://example.com/tech'' []) = Inr (Some tech_soup)
   \<and> filter is_sleep (snd (fetch_html demo ''https://example.com/tech'' [])) = [Sleep_uniform 1 3]
   \<and> snd (fetch_html demo ''https://example.com/tech'' [])
       = [Urlopen ''https://example.com/robots.txt'',
          Requests_get ''https://example.com/tech'' headers 10, Sleep_uniform 1 3]
   \<and> \<not> get_succeeded demo ''https://example.com/gone'' []
   \<and> filter is_sleep (snd (fetch_html demo ''https://example.com/gone'' [])) = []
   \<and> \<not> get_succeeded demo ''https://example.com/nowhere'' []
   \<and> filter is_sleep (snd (fetch_html demo ''https://example.com/nowhere'' [])) = []"
proof -
  have a: "fst (fetch_html demo ''https://example.com/tech'' []) = Inr (Some tech_soup)"
    by (simp add: demo_fetch_tech)
  have b: "snd (can_fetch demo ''https://example.com/tech'' ''*'' [])
             = [Urlopen ''https://example.com/robots.txt'']"
    using demo_allowed [of "''tech''" "[]"] by simp
  from politeness_delay [of demo "''https://example.com/tech''" "[]"]
    politeness_delay [of demo "''https://example.com/gone''" "[]"]
    politeness_delay [of demo "''https://example.com/nowhere''" "[]"]
    a b demo_get_succeeded
  show ?thesis by simp
qed

lemma rp_rules_agent:
  "rp_set_url (env\<lparr>rules_can_fetch := f\<rparr>) rp u = rp_set_url env rp u"
  "rp_read (env\<lparr>rules_can_fetch := f\<rparr>) h rp = rp_read env h rp"
  by (simp_all add: rp_set_url_def rp_read_def split: urlopen_result.splits sum.splits)

lemma rp_can_fetch_rules_agent:
  assumes "\<forall>txt u. f txt ua u = rules_can_fetch env txt ua u"
  shows "rp_can_fetch (env\<lparr>rules_can_fetch := f\<rparr>) rp ua u = rp_can_fetch env rp ua u"
  using assms by (simp add: rp_can_fetch_def)

lemma can_fetch_rules_agent:
  assumes "\<forall>txt u. f txt ua u = rules_can_fetch env txt ua u"
  shows "can_fetch (env\<lparr>rules_can_fetch := f\<rparr>) url ua h = can_fetch env url ua h"
  unfolding can_fetch_def rp_rules_agent
    rp_can_fetch_rules_agent [where f = f and env = env, OF assms]
  by simp

lemma fetch_html_gets:
  "filter is_requests_get (snd (fetch_html env url h))
     = (if fst (can_fetch env url ''*'' h) = Inr True
        then [Requests_get url [(''User-Agent'', ''Mozilla/5.0 (NewsScraperBot)'')] 10]
        else [])"
proof (cases "can_fetch env url ''*'' h")
  case (Pair r ev)
  have ns: "filter is_requests_get ev = []"
    using can_fetch_no_get [of env url "''*''" h] Pair by simp
  show ?thesis
    using Pair ns
    by (simp add: fetch_html_def headers_def skipping_def failed_to_fetch_def Let_def
        split: sum.splits bool.splits option.splits)
qed

text \<open>
  Claim C10. The decision that gates the page request is the one for the agent \<open>*\<close>:
  changing what the policy rules say to every other agent changes nothing of what
  \<open>fetch_html\<close> does. The page request, when it is sent, carries the user agent
  \<open>Mozilla/5.0 (NewsScraperBot)\<close>, which is not the agent consulted.
\<close>

theorem policy_agent_is_wildcard:
  assumes "\<forall>txt u. f txt ''*'' u = rules_can_fetch env txt ''*'' u"
  shows "fetch_html (env\<lparr>rules_can_fetch := f\<rparr>) url h = fetch_html env url h
       \<and> filter is_requests_get (snd (fetch_html env url h))
           = (if fst (can_fetch env url ''*'' h) = Inr True
              then [Requests_get url [(''User-Agent'', ''Mozilla/5.0 (NewsScraperBot)'')] 10]
              else [])
       \<and> ''*'' \<noteq> ''Mozilla/5.0 (NewsScraperBot)''"
proof -
  have "fetch_html (env\<lparr>rules_can_fetch := f\<rparr>) url h = fetch_html env url h"
    by (simp add: fetch_html_def can_fetch_rules_agent [where f = f and env = env, OF assms]
        Let_def split: prod.splits sum.splits bool.splits option.splits)
  then show ?thesis
    by (simp add: fetch_html_gets)
qed

theorem policy_agent_is_wildcard_witness:
  "(\<forall>txt u. wildcard_only txt ''*'' u = rules_can_fetch demo txt ''*'' u)
   \<and> wildcard_only allow_all_txt ''Mozilla/5.0 (NewsScraperBot)'' ''https://example.com/tech''
       = Inr False
   \<and> fetch_html (demo\<lparr>rules_can_fetch := wildcard_only\<rparr>) ''https://example.com/tech'' []
       = fetch_html demo ''https://example.com/tech'' []
   \<and> filter is_requests_get (snd (fetch_html demo ''https://example.com/tech'' []))
       = [Requests_get ''https://example.com/tech''
            [(''User-Agent'', ''Mozilla/5.0 (NewsScraperBot)'')] 10]"
proof -
  have a: "\<forall>txt u. wildcard_only txt ''*'' u = rules_can_fetch demo txt ''*'' u"
    by (simp add: wildcard_only_def demo_def)
  have b: "fst (can_fetch demo ''https://example.com/tech'' ''*'' []) = Inr True"
    using demo_allowed [of "''tech''" "[]"] by simp
  from policy_agent_is_wildcard [where f = wildcard_only and env = demo, OF a,
      of "''https://example.com/tech''" "[]"] a b
  show ?thesis by (simp add: wildcard_only_def)
qed

section \<open>The extractor\<close>

lemma of_char_lower_char:
  "(of_char (lower_char c) :: nat) =
     (if (65 \<le> (of_char c :: nat) \<and> (of_char c :: nat) \<le> 90)
         \<or> (192 \<le> (of_char c :: nat) \<and> (of_char c :: nat) \<le> 222 \<and> (of_char c :: nat) \<noteq> 215)
      then of_char c + 32 else of_char c)"
  by (auto simp add: lower_char_def Let_def)

lemma of_char_swap_case:
  "(of_char (swap_case c) :: nat) =
     (if (65 \<le> (of_char c :: nat) \<and> (of_char c :: nat) \<le> 90)
         \<or> (192 \<le> (of_char c :: nat) \<and> (of_char c :: nat) \<le> 222 \<and> (of_char c :: nat) \<noteq> 215)
      then of_char c + 32
      else if (97 \<le> (of_char c :: nat) \<and> (of_char c :: nat) \<le> 122)
         \<or> (224 \<le> (of_char c :: nat) \<and> (of_char c :: nat) \<le> 254 \<and> (of_char c :: nat) \<noteq> 247)
      then of_char c - 32 else of_char c)"
  by (auto simp add: swap_case_def Let_def)

lemma same_letter_lower: "same_letter a b \<longleftrightarrow> lower_char a = lower_char b"
proof -
  have eq: "x = y \<longleftrightarrow> (of_char x :: nat) = of_char y" for x y :: char
    by simp
  show ?thesis
    unfolding same_letter_def eq [of a b] eq [of "swap_case a" b]
      eq [of "lower_char a" "lower_char b"] of_char_lower_char of_char_swap_case
    by (auto split: if_splits)
qed

lemma ci_prefix_lower: "ci_prefix k t \<longleftrightarrow> prefix (str_lower k) (str_lower t)"
proof (induction k t rule: ci_prefix.induct)
  case (3 a k b t)
  then show ?case
    by (auto simp add: str_lower_def same_letter_lower)
qed (simp_all add: str_lower_def)

lemma ci_substring_lower: "ci_substring k t \<longleftrightarrow> str_contains (str_lower t) (str_lower k)"
proof (induction t)
  case Nil
  then show ?case by (simp add: str_lower_def)
next
  case (Cons c cs)
  have "str_lower (c # cs) = lower_char c # str_lower cs"
    by (simp add: str_lower_def)
  with Cons show ?case
    using ci_prefix_lower [of k "c # cs"] by simp
qed

lemma keyword_rejects_accepts: "keyword_rejects keyword title \<longleftrightarrow> \<not> keyword_accepts keyword title"
  by (simp add: keyword_rejects_def keyword_accepts_def ci_substring_lower split: option.splits)


lemma scrape_item_invalid:
  "get_text item = [] \<or> \<not> has_link item \<Longrightarrow> scrape_item env sn url kw item = Inr None"
  by (auto simp add: scrape_item_def has_link_def Let_def split: option.splits)


lemma scrape_item_Some:
  assumes "scrape_item env sn url kw item = Inr (Some r)"
  shows "h_title r = get_text item \<and> get_text item \<noteq> [] \<and> has_link item
       \<and> keyword_accepts kw (get_text item) \<and> h_time r = None \<and> h_source r = sn
       \<and> (\<exists>link. link \<noteq> [] \<and> urljoin env url link = Inr (h_url r))"
  using assms
  by (auto simp add: scrape_item_def has_link_def keyword_rejects_accepts Let_def
      split: option.splits sum.splits if_splits)



lemma headlines_loop_records:
  "headlines_loop env sn url kw items acc = Inr out \<Longrightarrow> r \<in> set out \<Longrightarrow>
   r \<in> set acc \<or> (\<exists>item \<in> set items. scrape_item env sn url kw item = Inr (Some r))"
proof (induction items arbitrary: acc)
  case Nil
  then show ?case by simp
next
  case (Cons item items)
  show ?case
  proof (cases "scrape_item env sn url kw item")
    case (Inl e)
    with Cons.prems show ?thesis by simp
  next
    case (Inr o1)
    show ?thesis
    proof (cases o1)
      case None
      with Inr Cons.prems have "headlines_loop env sn url kw items acc = Inr out" by simp
      from Cons.IH [OF this Cons.prems(2)] show ?thesis by auto
    next
      case (Some r')
      with Inr Cons.prems have "headlines_loop env sn url kw items (acc @ [r']) = Inr out"
        by simp
      from Cons.IH [OF this Cons.prems(2)] Inr Some show ?thesis by auto
    qed
  qed
qed

lemma scrape_headlines_cases:
  assumes "fst (scrape_headlines env sn url kw h) = Inr recs"
  shows "(fst (fetch_html env url (h @ [scraping sn])) = Inr None \<and> recs = [])
       \<or> (\<exists>sp. fst (fetch_html env url (h @ [scraping sn])) = Inr (Some sp)
               \<and> headlines_loop env sn url kw (select_a sp) [] = Inr recs)"
  using assms
  by (cases "fetch_html env url (h @ [scraping sn])")
    (auto simp add: scrape_headlines_def Let_def split: sum.splits option.splits)

lemma demo_sel:
  "urljoin demo = demo_urljoin" "requests_get demo = demo_get" "html_parser demo = demo_html"
  "urlopen demo = demo_urlopen" "rules_can_fetch demo = demo_rules"
  by (simp_all add: demo_def)

lemma demo_urljoin_nonempty:
  "\<forall>link. link \<noteq> [] \<longrightarrow> urljoin demo base link \<noteq> Inr []"
  by (simp add: demo_def demo_urljoin_def)


lemma demo_scrape_tech:
  "scrape_headlines demo ''tech'' ''https://example.com/tech'' None h
     = (Inr [\<lparr>h_source = ''tech'', h_title = ''AI breakthrough'',
               h_url = ''https://example.com/x'', h_time = None\<rparr>,
             \<lparr>h_source = ''tech'', h_title = ''Sports update'',
               h_url = ''https://example.com/y'', h_time = None\<rparr>],
        [scraping ''tech'', Urlopen ''https://example.com/robots.txt'',
         Requests_get ''https://example.com/tech'' headers 10, Sleep_uniform 1 3,
         found 2 ''tech''])"
  by (simp add: scrape_headlines_def demo_fetch_tech tech_soup_def scrape_item_def
      keyword_rejects_def demo_sel demo_urljoin_def numeral_2_eq_2)


text \<open>
  Claim C3. Every record that \<open>scrape_headlines\<close> returns has a non-empty title and
  no time; its URL is non-empty provided \<^verbatim>\<open>urljoin\<close> resolves a non-empty link
  against the page URL to a non-empty URL. Every record comes from an anchor of the
  fetched document whose text is its title and whose text and \<open>href\<close> are both
  non-empty; for an anchor whose text is empty or whose \<open>href\<close> is empty or absent, the
  loop body constructs no record.
\<close>

theorem scrape_headlines_records:
  assumes "fst (scrape_headlines env source_name url keyword h) = Inr recs"
    and "\<forall>link. link \<noteq> [] \<longrightarrow> urljoin env url link \<noteq> Inr []"
  shows "(\<forall>r \<in> set recs. h_title r \<noteq> [] \<and> h_url r \<noteq> [] \<and> h_time r = None)
       \<and> (\<forall>sp. fst (fetch_html env url (h @ [scraping source_name])) = Inr (Some sp) \<longrightarrow>
            (\<forall>r \<in> set recs. \<exists>item \<in> set (select_a sp).
                get_text item = h_title r \<and> get_text item \<noteq> [] \<and> has_link item))
       \<and> (\<forall>item. get_text item = [] \<or> \<not> has_link item \<longrightarrow>
            scrape_item env source_name url keyword item = Inr None)"
proof -
  have origin: "\<exists>item \<in> set (select_a sp). scrape_item env source_name url keyword item = Inr (Some r)"
    if "fst (fetch_html env url (h @ [scraping source_name])) = Inr (Some sp)" "r \<in> set recs"
    for sp r
    using scrape_headlines_cases [OF assms(1)] that
      headlines_loop_records [of env source_name url keyword "select_a sp" "[]" recs r]
    by auto
  have fields: "h_title r \<noteq> [] \<and> h_url r \<noteq> [] \<and> h_time r = None" if "r \<in> set recs" for r
  proof -
    from scrape_headlines_cases [OF assms(1)] that obtain sp
      where "fst (fetch_html env url (h @ [scraping source_name])) = Inr (Some sp)"
      by auto
    from origin [OF this that] obtain item
      where "scrape_item env source_name url keyword item = Inr (Some r)" by blast
    from scrape_item_Some [OF this] assms(2) show ?thesis by metis
  qed
  have valid: "\<exists>item \<in> set (select_a sp).
      get_text item = h_title r \<and> get_text item \<noteq> [] \<and> has_link item"
    if "fst (fetch_html env url (h @ [scraping source_name])) = Inr (Some sp)" "r \<in> set recs"
    for sp r
  proof -
    from origin [OF that] obtain item where "item \<in> set (select_a sp)"
      "scrape_item env source_name url keyword item = Inr (Some r)" by blast
    with scrape_item_Some [OF this(2)] show ?thesis by auto
  qed
  from fields valid scrape_item_invalid show ?thesis by blast
qed

theorem scrape_headlines_records_witness:
  "fst (scrape_headlines demo ''tech'' ''https://example.com/tech'' None [])
     = Inr [\<lparr>h_source = ''tech'', h_title = ''AI breakthrough'',
               h_url = ''https://example.com/x'', h_time = None\<rparr>,
            \<lparr>h_source = ''tech'', h_title = ''Sports update'',
               h_url = ''https://example.com/y'', h_time = None\<rparr>]
   \<and> (\<nexists>link. link \<noteq> [] \<and> urljoin demo ''https://example.com/tech'' link = Inr [])
   \<and> scrape_item demo ''tech'' ''https://example.com/tech'' None
         \<lparr>get_text = ''top'', href = None\<rparr> = Inr None
   \<and> scrape_item demo ''tech'' ''https://example.com/tech'' None
         \<lparr>get_text = [], href = Some ''/x''\<rparr> = Inr None
   \<and> scrape_item demo ''tech'' ''https://example.com/tech'' None
         \<lparr>get_text = ''top'', href = Some []\<rparr> = Inr None"
proof -
  have a: "fst (scrape_headlines demo ''tech'' ''https://example.com/tech'' None [])
     = Inr [\<lparr>h_source = ''tech'', h_title = ''AI breakthrough'',
               h_url = ''https://example.com/x'', h_time = None\<rparr>,
            \<lparr>h_source = ''tech'', h_title = ''Sports update'',
               h_url = ''https://example.com/y'', h_time = None\<rparr>]"
    by (simp add: demo_scrape_tech)
  have b: "\<forall>link. link \<noteq> [] \<longrightarrow> urljoin demo ''https://example.com/tech'' link \<noteq> Inr []"
    by (rule demo_urljoin_nonempty)
  have c: "\<not> has_link \<lparr>get_text = ''top'', href = None\<rparr>"
    "\<not> has_link \<lparr>get_text = ''top'', href = Some []\<rparr>"
    by (simp_all add: has_link_def)
  from scrape_headlines_records [OF a b]
  have inv: "get_text item = [] \<or> \<not> has_link item \<Longrightarrow>
      scrape_item demo ''tech'' ''https://example.com/tech'' None item = Inr None" for item
    by blast
  from inv [of "\<lparr>get_text = ''top'', href = None\<rparr>"]
    inv [of "\<lparr>get_text = [], href = Some ''/x''\<rparr>"]
    inv [of "\<lparr>get_text = ''top'', href = Some []\<rparr>"] a b c
  show ?thesis
    by auto
qed



section \<open>The pipeline\<close>

lemma fetch_html_no_persist: "filter is_persist (snd (fetch_html env url h)) = []"
proof (cases "can_fetch env url ''*'' h")
  case (Pair r ev)
  with can_fetch_no_persist [of env url "''*''" h] show ?thesis
    by (simp add: fetch_html_def skipping_def failed_to_fetch_def Let_def
        split: sum.splits bool.splits option.splits)
qed

lemma fetch_html_no_scraping: "filter is_scraping (snd (fetch_html env url h)) = []"
proof (cases "can_fetch env url ''*'' h")
  case (Pair r ev)
  with can_fetch_no_scraping [of env url "''*''" h] show ?thesis
    by (simp add: fetch_html_def skipping_def failed_to_fetch_def Let_def
        split: sum.splits bool.splits option.splits)
qed

lemma fetch_html_no_invalid: "filter is_invalid_source (snd (fetch_html env url h)) = []"
proof (cases "can_fetch env url ''*'' h")
  case (Pair r ev)
  with can_fetch_no_invalid [of env url "''*''" h] show ?thesis
    by (simp add: fetch_html_def skipping_def failed_to_fetch_def Let_def
        split: sum.splits bool.splits option.splits)
qed

lemma fetch_html_if_denied:
  "fst (can_fetch env url ''*'' h) = Inr False \<Longrightarrow> fst (fetch_html env url h) = Inr None"
  by (cases "can_fetch env url ''*'' h") (simp add: fetch_html_def)

lemma scrape_headlines_no_persist:
  "filter is_persist (snd (scrape_headlines env sn url kw h)) = []"
proof (cases "fetch_html env url (h @ [scraping sn])")
  case (Pair r ev)
  with fetch_html_no_persist [of env url "h @ [scraping sn]"] show ?thesis
    by (simp add: scrape_headlines_def scraping_def found_def Let_def
        split: sum.splits option.splits)
qed

lemma scrape_headlines_scraping:
  "filter is_scraping (snd (scrape_headlines env sn url kw h)) = [scraping sn]"
proof (cases "fetch_html env url (h @ [scraping sn])")
  case (Pair r ev)
  with fetch_html_no_scraping [of env url "h @ [scraping sn]"] show ?thesis
    by (simp add: scrape_headlines_def scraping_def found_def Let_def
        split: sum.splits option.splits)
qed

lemma scrape_headlines_no_invalid:
  "filter is_invalid_source (snd (scrape_headlines env sn url kw h)) = []"
proof (cases "fetch_html env url (h @ [scraping sn])")
  case (Pair r ev)
  with fetch_html_no_invalid [of env url "h @ [scraping sn]"] show ?thesis
    by (simp add: scrape_headlines_def scraping_def found_def Let_def
        split: sum.splits option.splits)
qed

lemma scrape_headlines_if_denied:
  assumes "\<forall>h'. fst (can_fetch env url ''*'' h') = Inr False"
  shows "fst (scrape_headlines env sn url kw h) = Inr []"
proof -
  from assms have "fst (fetch_html env url (h @ [scraping sn])) = Inr None"
    by (simp add: fetch_html_if_denied)
  then show ?thesis
    by (cases "fetch_html env url (h @ [scraping sn])") (simp add: scrape_headlines_def)
qed

lemma main_loop_Cons_invalid:
  "CHR ''='' \<notin> set t \<Longrightarrow>
   main_loop env kw (t # ts) acc h =
     (fst (main_loop env kw ts acc (h @ [invalid_source t])),
      invalid_source t # snd (main_loop env kw ts acc (h @ [invalid_source t])))"
  by (simp add: split_def Let_def main_loop.simps(2))

lemma main_loop_Cons_valid:
  "CHR ''='' \<in> set t \<Longrightarrow>
   main_loop env kw (t # ts) acc h =
     (case scrape_headlines env (fst (source_spec t)) (snd (source_spec t)) kw h of
        (Inl e, ev) \<Rightarrow> (Inl e, ev)
      | (Inr data, ev) \<Rightarrow>
          (fst (main_loop env kw ts (acc @ data) (h @ ev)),
           ev @ snd (main_loop env kw ts (acc @ data) (h @ ev))))"
  by (simp add: split_def source_spec_def Let_def main_loop.simps(2)
      split: prod.splits sum.splits)

lemma main_loop_no_persist:
  "filter is_persist (snd (main_loop env kw ts acc h)) = []"
proof (induction ts arbitrary: acc h)
  case Nil
  then show ?case by simp
next
  case (Cons t ts)
  show ?case
  proof (cases "CHR ''='' \<in> set t")
    case False
    with Cons.IH show ?thesis
      by (simp add: main_loop_Cons_invalid invalid_source_def)
  next
    case True
    obtain r ev where sh: "scrape_headlines env (fst (source_spec t)) (snd (source_spec t)) kw h = (r, ev)"
      by (cases "scrape_headlines env (fst (source_spec t)) (snd (source_spec t)) kw h")
    with scrape_headlines_no_persist [of env "fst (source_spec t)" "snd (source_spec t)" kw h]
    have "filter is_persist ev = []" by simp
    with True sh Cons.IH show ?thesis
      by (simp add: main_loop_Cons_valid split: sum.splits)
  qed
qed

lemma main_loop_outputs:
  assumes "\<forall>t \<in> set ts. CHR ''='' \<in> set t"
  shows "fst (main_loop env kw ts acc h) =
     (case concat_outputs (source_outputs env kw (map source_spec ts) h) of
        Inl e \<Rightarrow> Inl e
      | Inr ds \<Rightarrow> Inr (acc @ ds))"
  using assms
proof (induction ts arbitrary: acc h)
  case Nil
  then show ?case by simp
next
  case (Cons t ts)
  obtain r ev where sh: "scrape_headlines env (fst (source_spec t)) (snd (source_spec t)) kw h = (r, ev)"
    by (cases "scrape_headlines env (fst (source_spec t)) (snd (source_spec t)) kw h")
  from Cons.prems have v: "CHR ''='' \<in> set t" and rest: "\<forall>t \<in> set ts. CHR ''='' \<in> set t"
    by simp_all
  show ?case
  proof (cases r)
    case (Inl e)
    with v sh show ?thesis
      by (simp add: main_loop_Cons_valid)
  next
    case (Inr d)
    with v sh Cons.IH [OF rest, of "acc @ d" "h @ ev"] show ?thesis
      by (simp add: main_loop_Cons_valid split: sum.splits)
  qed
qed

lemma main_loop_all_denied:
  assumes "\<forall>t \<in> set ts. \<forall>h'. CHR ''='' \<in> set t \<longrightarrow>
             fst (can_fetch env (snd (source_spec t)) ''*'' h') = Inr False"
  shows "fst (main_loop env kw ts acc h) = Inr acc"
  using assms
proof (induction ts arbitrary: h)
  case Nil
  then show ?case by simp
next
  case (Cons t ts)
  from Cons.prems have rest: "\<forall>t \<in> set ts. \<forall>h'. CHR ''='' \<in> set t \<longrightarrow>
             fst (can_fetch env (snd (source_spec t)) ''*'' h') = Inr False"
    by simp
  show ?case
  proof (cases "CHR ''='' \<in> set t")
    case False
    with Cons.IH [OF rest] show ?thesis
      by (simp add: main_loop_Cons_invalid)
  next
    case True
    with Cons.prems have "\<forall>h'. fst (can_fetch env (snd (source_spec t)) ''*'' h') = Inr False"
      by simp
    from scrape_headlines_if_denied [OF this, of "fst (source_spec t)" kw h]
    obtain ev where "scrape_headlines env (fst (source_spec t)) (snd (source_spec t)) kw h = (Inr [], ev)"
      by (cases "scrape_headlines env (fst (source_spec t)) (snd (source_spec t)) kw h") auto
    with True Cons.IH [OF rest] show ?thesis
      by (simp add: main_loop_Cons_valid)
  qed
qed

lemma demo_specs:
  "source_spec ''tech=https://example.com/tech'' = (''tech'', ''https://example.com/tech'')"
  "source_spec '' world = https://example.com/world ''
     = (''world'', ''https://example.com/world'')"
  "source_spec ''a=https://closed.example/news'' = (''a'', ''https://closed.example/news'')"
  by code_simp+

lemma demo_fetch_world:
  "fetch_html demo ''https://example.com/world'' h
     = (Inr (Some world_soup),
        [Urlopen ''https://example.com/robots.txt'',
         Requests_get ''https://example.com/world'' headers 10, Sleep_uniform 1 3])"
  using demo_allowed [of "''world''" h]
  by (simp add: fetch_html_def demo_sel demo_get_def raise_for_status_def demo_html_def
      tech_page_def)

lemma demo_scrape_world:
  "scrape_headlines demo ''world'' ''https://example.com/world'' None h
     = (Inr [\<lparr>h_source = ''world'', h_title = ''Stocks Rally'',
               h_url = ''https://example.com/z'', h_time = None\<rparr>],
        [scraping ''world'', Urlopen ''https://example.com/robots.txt'',
         Requests_get ''https://example.com/world'' headers 10, Sleep_uniform 1 3,
         found 1 ''world''])"
  by (simp add: scrape_headlines_def demo_fetch_world world_soup_def scrape_item_def
      keyword_rejects_def demo_sel demo_urljoin_def)

lemma demo_closed_denied_any:
  "can_fetch demo ''https://closed.example/news'' ''*'' h
     = (Inr False, [Urlopen ''https://closed.example/robots.txt''])"
  by (simp add: can_fetch_def demo_def demo_urljoin_def rp_set_url_def RobotFileParser_def
      rp_read_def demo_urlopen_def rp_can_fetch_def demo_rules_def)

lemma demo_scrape_closed:
  "scrape_headlines demo ''a'' ''https://closed.example/news'' None h
     = (Inr [], [scraping ''a'', Urlopen ''https://closed.example/robots.txt'',
                 skipping ''https://closed.example/news''])"
  by (simp add: scrape_headlines_def fetch_html_def demo_closed_denied_any)

lemma demo_run:
  "main_loop demo None
     [''tech=https://example.com/tech'', ''bad'', '' world = https://example.com/world ''] [] []
   = (Inr [\<lparr>h_source = ''tech'', h_title = ''AI breakthrough'',
              h_url = ''https://example.com/x'', h_time = None\<rparr>,
           \<lparr>h_source = ''tech'', h_title = ''Sports update'',
              h_url = ''https://example.com/y'', h_time = None\<rparr>,
           \<lparr>h_source = ''world'', h_title = ''Stocks Rally'',
              h_url = ''https://example.com/z'', h_time = None\<rparr>],
      [scraping ''tech'', Urlopen ''https://example.com/robots.txt'',
       Requests_get ''https://example.com/tech'' headers 10, Sleep_uniform 1 3,
       found 2 ''tech'', invalid_source ''bad'',
       scraping ''world'', Urlopen ''https://example.com/robots.txt'',
       Requests_get ''https://example.com/world'' headers 10, Sleep_uniform 1 3,
       found 1 ''world''])"
  by (simp add: main_loop_Cons_valid main_loop_Cons_invalid demo_specs demo_scrape_tech
      demo_scrape_world)

lemma demo_run_closed:
  "main_loop demo None [''a=https://closed.example/news'', ''junk''] [] []
   = (Inr [], [scraping ''a'', Urlopen ''https://closed.example/robots.txt'',
               skipping ''https://closed.example/news'', invalid_source ''junk''])"
  by (simp add: main_loop_Cons_valid main_loop_Cons_invalid demo_specs demo_scrape_closed
     )

text \<open>
  Claim C5. For a list of source entries that all contain \<open>=\<close>, the aggregate that the
  loop of \<open>main\<close> builds is the concatenation, in the order of the list, of what
  \<open>scrape_headlines\<close> returns for each source (each in document order, by claim C4); the
  run ends with the first exception of a source, if there is one.
\<close>

theorem main_loop_concatenates:
  assumes "\<forall>t \<in> set tokens. CHR ''='' \<in> set t"
  shows "fst (main_loop env keyword tokens [] h)
           = concat_outputs (source_outputs env keyword (map source_spec tokens) h)"
  using main_loop_outputs [OF assms, of env keyword "[]" h]
  by (simp split: sum.splits)

theorem main_loop_concatenates_witness:
  "source_outputs demo None
     (map source_spec [''tech=https://example.com/tech'', '' world = https://example.com/world ''])
     []
   = [Inr [\<lparr>h_source = ''tech'', h_title = ''AI breakthrough'',
              h_url = ''https://example.com/x'', h_time = None\<rparr>,
           \<lparr>h_source = ''tech'', h_title = ''Sports update'',
              h_url = ''https://example.com/y'', h_time = None\<rparr>],
      Inr [\<lparr>h_source = ''world'', h_title = ''Stocks Rally'',
              h_url = ''https://example.com/z'', h_time = None\<rparr>]]
   \<and> fst (main_loop demo None
            [''tech=https://example.com/tech'', '' world = https://example.com/world ''] [] [])
   = Inr [\<lparr>h_source = ''tech'', h_title = ''AI breakthrough'',
              h_url = ''https://example.com/x'', h_time = None\<rparr>,
          \<lparr>h_source = ''tech'', h_title = ''Sports update'',
              h_url = ''https://example.com/y'', h_time = None\<rparr>,
          \<lparr>h_source = ''world'', h_title = ''Stocks Rally'',
              h_url = ''https://example.com/z'', h_time = None\<rparr>]"
proof -
  have a: "\<forall>t \<in> set [''tech=https://example.com/tech'', '' world = https://example.com/world ''].
             CHR ''='' \<in> set t"
    by simp
  have b: "source_outputs demo None
     (map source_spec [''tech=https://example.com/tech'', '' world = https://example.com/world ''])
     []
   = [Inr [\<lparr>h_source = ''tech'', h_title = ''AI breakthrough'',
              h_url = ''https://example.com/x'', h_time = None\<rparr>,
           \<lparr>h_source = ''tech'', h_title = ''Sports update'',
              h_url = ''https://example.com/y'', h_time = None\<rparr>],
      Inr [\<lparr>h_source = ''world'', h_title = ''Stocks Rally'',
              h_url = ''https://example.com/z'', h_time = None\<rparr>]]"
    by (simp add: demo_specs demo_scrape_tech demo_scrape_world)
  from main_loop_concatenates [OF a, of demo None "[]"] b show ?thesis
    by simp
qed

text \<open>
  Claim C6. When the aggregate is empty, \<open>main\<close> returns after logging the warning
  \<open>No headlines found.\<close>, and no event of the run creates a directory or writes a file.
  The aggregate is empty in particular when the policy denies every source.
\<close>

theorem empty_aggregate_not_persisted:
  "(fst (main_loop env (arg_keyword a) (arg_sources a) [] h) = Inr [] \<longrightarrow>
      fst (main env a h) = Inr ()
      \<and> snd (main env a h)
          = snd (main_loop env (arg_keyword a) (arg_sources a) [] h) @ [no_headlines]
      \<and> filter is_persist (snd (main env a h)) = [])
   \<and> ((\<forall>t \<in> set (arg_sources a). \<forall>h'. CHR ''='' \<in> set t \<longrightarrow>
          fst (can_fetch env (snd (source_spec t)) ''*'' h') = Inr False) \<longrightarrow>
       fst (main_loop env (arg_keyword a) (arg_sources a) [] h) = Inr [])"
proof -
  have "fst (main env a h) = Inr ()
      \<and> snd (main env a h)
          = snd (main_loop env (arg_keyword a) (arg_sources a) [] h) @ [no_headlines]
      \<and> filter is_persist (snd (main env a h)) = []"
    if "fst (main_loop env (arg_keyword a) (arg_sources a) [] h) = Inr []"
    using that main_loop_no_persist [of env "arg_keyword a" "arg_sources a" "[]" h]
    by (cases "main_loop env (arg_keyword a) (arg_sources a) [] h")
      (simp add: main_def no_headlines_def)
  then show ?thesis
    using main_loop_all_denied [of "arg_sources a" env "arg_keyword a" "[]" h]
    by blast
qed

theorem empty_aggregate_not_persisted_witness:
  "fst (main_loop demo None [''a=https://closed.example/news'', ''junk''] [] []) = Inr []
   \<and> fst (main demo \<lparr>arg_sources = [''a=https://closed.example/news'', ''junk''],
                     arg_keyword = None, arg_output = ''headlines.json'',
                     arg_format = ''json''\<rparr> []) = Inr ()
   \<and> snd (main demo \<lparr>arg_sources = [''a=https://closed.example/news'', ''junk''],
                     arg_keyword = None, arg_output = ''headlines.json'',
                     arg_format = ''json''\<rparr> [])
       = [scraping ''a'', Urlopen ''https://closed.example/robots.txt'',
          skipping ''https://closed.example/news'', invalid_source ''junk'', no_headlines]
   \<and> filter is_persist
         (snd (main demo \<lparr>arg_sources = [''a=https://closed.example/news'', ''junk''],
                          arg_keyword = None, arg_output = ''headlines.json'',
                          arg_format = ''json''\<rparr> [])) = []"
proof -
  let ?a = "\<lparr>arg_sources = [''a=https://closed.example/news'', ''junk''],
             arg_keyword = None, arg_output = ''headlines.json'', arg_format = ''json''\<rparr>"
  have d: "\<forall>t \<in> set (arg_sources ?a). \<forall>h'. CHR ''='' \<in> set t \<longrightarrow>
             fst (can_fetch demo (snd (source_spec t)) ''*'' h') = Inr False"
    by (simp add: demo_specs demo_closed_denied_any)
  from empty_aggregate_not_persisted [of demo ?a "[]"] d
  have e: "fst (main_loop demo (arg_keyword ?a) (arg_sources ?a) [] []) = Inr []"
    by blast
  from empty_aggregate_not_persisted [of demo ?a "[]"] e
  have "fst (main demo ?a []) = Inr ()
      \<and> snd (main demo ?a [])
          = snd (main_loop demo (arg_keyword ?a) (arg_sources ?a) [] []) @ [no_headlines]
      \<and> filter is_persist (snd (main demo ?a [])) = []"
    by blast
  with e show ?thesis
    by (simp add: demo_run_closed scraping_def skipping_def invalid_source_def
        no_headlines_def)
qed

lemma main_loop_events_prefix:
  "prefix (filter is_scraping (snd (main_loop env kw ts acc h)))
          (map (\<lambda>t. scraping (fst (source_spec t))) (filter (\<lambda>t. CHR ''='' \<in> set t) ts))
   \<and> prefix (filter is_invalid_source (snd (main_loop env kw ts acc h)))
          (map invalid_source (filter (\<lambda>t. CHR ''='' \<notin> set t) ts))"
proof (induction ts arbitrary: acc h)
  case Nil
  then show ?case by simp
next
  case (Cons t ts)
  show ?case
  proof (cases "CHR ''='' \<in> set t")
    case False
    with Cons.IH [of acc "h @ [invalid_source t]"] show ?thesis
      by (simp add: main_loop_Cons_invalid invalid_source_def)
  next
    case True
    obtain r ev where sh: "scrape_headlines env (fst (source_spec t)) (snd (source_spec t)) kw h = (r, ev)"
      by (cases "scrape_headlines env (fst (source_spec t)) (snd (source_spec t)) kw h")
    from scrape_headlines_scraping [of env "fst (source_spec t)" "snd (source_spec t)" kw h]
      scrape_headlines_no_invalid [of env "fst (source_spec t)" "snd (source_spec t)" kw h] sh
    have ev: "filter is_scraping ev = [scraping (fst (source_spec t))]"
      "filter is_invalid_source ev = []"
      by simp_all
    show ?thesis
    proof (cases r)
      case (Inl e)
      with True sh ev show ?thesis
        by (simp add: main_loop_Cons_valid)
    next
      case (Inr d)
      with True sh ev Cons.IH [of "acc @ d" "h @ ev"] show ?thesis
        by (simp add: main_loop_Cons_valid)
    qed
  qed
qed

lemma main_loop_events_complete:
  assumes "fst (main_loop env kw ts acc h) = Inr agg"
  shows "filter is_scraping (snd (main_loop env kw ts acc h))
           = map (\<lambda>t. scraping (fst (source_spec t))) (filter (\<lambda>t. CHR ''='' \<in> set t) ts)
       \<and> filter is_invalid_source (snd (main_loop env kw ts acc h))
           = map invalid_source (filter (\<lambda>t. CHR ''='' \<notin> set t) ts)"
  using assms
proof (induction ts arbitrary: acc h)
  case Nil
  then show ?case by simp
next
  case (Cons t ts)
  show ?case
  proof (cases "CHR ''='' \<in> set t")
    case False
    with Cons.prems have "fst (main_loop env kw ts acc (h @ [invalid_source t])) = Inr agg"
      by (simp add: main_loop_Cons_invalid)
    from Cons.IH [OF this] False show ?thesis
      by (simp add: main_loop_Cons_invalid invalid_source_def)
  next
    case True
    obtain r ev where sh: "scrape_headlines env (fst (source_spec t)) (snd (source_spec t)) kw h = (r, ev)"
      by (cases "scrape_headlines env (fst (source_spec t)) (snd (source_spec t)) kw h")
    from scrape_headlines_scraping [of env "fst (source_spec t)" "snd (source_spec t)" kw h]
      scrape_headlines_no_invalid [of env "fst (source_spec t)" "snd (source_spec t)" kw h] sh
    have ev: "filter is_scraping ev = [scraping (fst (source_spec t))]"
      "filter is_invalid_source ev = []"
      by simp_all
    from Cons.prems True sh obtain d where r: "r = Inr d"
      and rest: "fst (main_loop env kw ts (acc @ d) (h @ ev)) = Inr agg"
      by (cases r) (simp_all add: main_loop_Cons_valid)
    from Cons.IH [OF rest] True sh r ev show ?thesis
      by (simp add: main_loop_Cons_valid)
  qed
qed

text \<open>
  Claim C7. In every run of the loop of \<open>main\<close>, \<open>scrape_headlines\<close> is entered only
  for entries that contain \<open>=\<close>, in their order, and the warning
  \<open>Invalid source format\<close> is logged only for entries that do not. In a run that
  completes, it is entered for exactly the entries that contain \<open>=\<close> and the warning is
  logged for exactly the others; so the number of sources processed is the number of
  entries minus the number of malformed ones.
\<close>

theorem malformed_tokens_dropped:
  "prefix (filter is_scraping (snd (main_loop env keyword tokens all_headlines h)))
          (map (\<lambda>t. scraping (fst (source_spec t))) (filter (\<lambda>t. CHR ''='' \<in> set t) tokens))
   \<and> prefix (filter is_invalid_source (snd (main_loop env keyword tokens all_headlines h)))
          (map invalid_source (filter (\<lambda>t. CHR ''='' \<notin> set t) tokens))
   \<and> (\<forall>agg. fst (main_loop env keyword tokens all_headlines h) = Inr agg \<longrightarrow>
         filter is_scraping (snd (main_loop env keyword tokens all_headlines h))
           = map (\<lambda>t. scraping (fst (source_spec t))) (filter (\<lambda>t. CHR ''='' \<in> set t) tokens)
         \<and> filter is_invalid_source (snd (main_loop env keyword tokens all_headlines h))
           = map invalid_source (filter (\<lambda>t. CHR ''='' \<notin> set t) tokens)
         \<and> length (filter is_scraping (snd (main_loop env keyword tokens all_headlines h)))
           = length tokens - length (filter (\<lambda>t. CHR ''='' \<notin> set t) tokens))"
proof -
  have len: "length (filter (\<lambda>t. CHR ''='' \<in> set t) tokens)
          = length tokens - length (filter (\<lambda>t. CHR ''='' \<notin> set t) tokens)"
    using sum_length_filter_compl [of "\<lambda>t. CHR ''='' \<in> set t" tokens] by simp
  have "filter is_scraping (snd (main_loop env keyword tokens all_headlines h))
           = map (\<lambda>t. scraping (fst (source_spec t))) (filter (\<lambda>t. CHR ''='' \<in> set t) tokens)
         \<and> filter is_invalid_source (snd (main_loop env keyword tokens all_headlines h))
           = map invalid_source (filter (\<lambda>t. CHR ''='' \<notin> set t) tokens)
         \<and> length (filter is_scraping (snd (main_loop env keyword tokens all_headlines h)))
           = length tokens - length (filter (\<lambda>t. CHR ''='' \<notin> set t) tokens)"
    if "fst (main_loop env keyword tokens all_headlines h) = Inr agg" for agg
    using main_loop_events_complete [OF that] len by simp
  with main_loop_events_prefix [of env keyword tokens all_headlines h] show ?thesis
    by blast
qed

theorem malformed_tokens_dropped_witness:
  "fst (main_loop demo None
          [''tech=https://example.com/tech'', ''bad'', '' world = https://example.com/world '']
          [] [])
     = Inr [\<lparr>h_source = ''tech'', h_title = ''AI breakthrough'',
              h_url = ''https://example.com/x'', h_time = None\<rparr>,
            \<lparr>h_source = ''tech'', h_title = ''Sports update'',
              h_url = ''https://example.com/y'', h_time = None\<rparr>,
            \<lparr>h_source = ''world'', h_title = ''Stocks Rally'',
              h_url = ''https://example.com/z'', h_time = None\<rparr>]
   \<and> filter is_scraping (snd (main_loop demo None
          [''tech=https://example.com/tech'', ''bad'', '' world = https://example.com/world '']
          [] []))
     = [scraping ''tech'', scraping ''world'']
   \<and> filter is_invalid_source (snd (main_loop demo None
          [''tech=https://example.com/tech'', ''bad'', '' world = https://example.com/world '']
          [] []))
     = [invalid_source ''bad'']
   \<and> length (filter is_scraping (snd (main_loop demo None
          [''tech=https://example.com/tech'', ''bad'', '' world = https://example.com/world '']
          [] [])))
     = 3 - 1"
proof -
  have a: "fst (main_loop demo None
          [''tech=https://example.com/tech'', ''bad'', '' world = https://example.com/world '']
          [] [])
     = Inr [\<lparr>h_source = ''tech'', h_title = ''AI breakthrough'',
              h_url = ''https://example.com/x'', h_time = None\<rparr>,
            \<lparr>h_source = ''tech'', h_title = ''Sports update'',
              h_url = ''https://example.com/y'', h_time = None\<rparr>,
            \<lparr>h_source = ''world'', h_title = ''Stocks Rally'',
              h_url = ''https://example.com/z'', h_time = None\<rparr>]"
    by (simp add: demo_run)
  from malformed_tokens_dropped [of demo None
      "[''tech=https://example.com/tech'', ''bad'', '' world = https://example.com/world '']"
      "[]" "[]"] a
  have "filter is_scraping (snd (main_loop demo None
          [''tech=https://example.com/tech'', ''bad'', '' world = https://example.com/world '']
          [] []))
     = map (\<lambda>t. scraping (fst (source_spec t))) (filter (\<lambda>t. CHR ''='' \<in> set t)
          [''tech=https://example.com/tech'', ''bad'', '' world = https://example.com/world ''])"
    "filter is_invalid_source (snd (main_loop demo None
          [''tech=https://example.com/tech'', ''bad'', '' world = https://example.com/world '']
          [] []))
     = map invalid_source (filter (\<lambda>t. CHR ''='' \<notin> set t)
          [''tech=https://example.com/tech'', ''bad'', '' world = https://example.com/world ''])"
    by blast+
  with a show ?thesis
    by (simp add: demo_specs)
qed

section \<open>Persistence\<close>

lemma char_eq_nat: "c = d \<longleftrightarrow> (of_char c :: nat) = of_char d"
  by simp

lemma hex_value_hex_digit: "d < 16 \<Longrightarrow> hex_value (hex_digit d) = Some d"
  by (auto simp add: hex_value_def hex_digit_def Let_def)

lemma scanstring_plain:
  assumes "c \<noteq> CHR 0x22" "c \<noteq> CHR 0x5C" "\<not> (of_char c :: nat) < 32"
  shows "scanstring (c # rest) =
     (case scanstring rest of None \<Rightarrow> None | Some (v, r) \<Rightarrow> Some (c # v, r))"
  using assms by (simp add: scanstring.simps(2))

lemma scanstring_backslash:
  assumes "esc \<noteq> CHR ''u''" "backslash esc = Some c"
  shows "scanstring (CHR 0x5C # esc # rest) =
     (case scanstring rest of None \<Rightarrow> None | Some (v, r) \<Rightarrow> Some (c # v, r))"
  using assms by (simp add: scanstring.simps(2))

lemma scanstring_u00:
  assumes "n < 32"
  shows "scanstring (CHR 0x5C # CHR ''u'' # CHR ''0'' # CHR ''0'' # hex_digit (n div 16)
                      # hex_digit (n mod 16) # rest) =
     (case scanstring rest of None \<Rightarrow> None | Some (v, r) \<Rightarrow> Some (char_of n # v, r))"
proof -
  have z: "hex_value CHR ''0'' = Some 0"
    by (simp add: hex_value_def)
  from assms have "n div 16 < 16" "n mod 16 < 16" by simp_all
  then have h: "hex_value (hex_digit (n div 16)) = Some (n div 16)"
    "hex_value (hex_digit (n mod 16)) = Some (n mod 16)"
    by (simp_all add: hex_value_hex_digit)
  from assms have "n < 256" by simp
  with z h show ?thesis
    by (simp add: scanstring.simps(2))
qed

lemma scanstring_escape_char:
  "scanstring (escape_char c @ rest) =
     (case scanstring rest of None \<Rightarrow> None | Some (v, r) \<Rightarrow> Some (c # v, r))"
proof -
  let ?n = "of_char c :: nat"
  consider (bs) "?n = 0x5C" | (q) "?n = 0x22" | (b) "?n = 8" | (f) "?n = 12" | (n) "?n = 10"
    | (r) "?n = 13" | (t) "?n = 9"
    | (u) "?n < 32" "?n \<notin> {8, 9, 10, 12, 13}"
    | (plain) "\<not> ?n < 32" "?n \<noteq> 0x5C" "?n \<noteq> 0x22"
    by auto
  then show ?thesis
  proof cases
    case bs
    then have "c = CHR 0x5C" by (simp add: char_eq_nat)
    then show ?thesis
      by (auto simp add: escape_char_def scanstring_backslash backslash_def
          split: option.splits)
  next
    case q
    then have "c = CHR 0x22" by (simp add: char_eq_nat)
    then show ?thesis
      by (auto simp add: escape_char_def scanstring_backslash backslash_def
          split: option.splits)
  next
    case b
    then have "c = CHR 0x08" by (simp add: char_eq_nat)
    then show ?thesis
      by (auto simp add: escape_char_def scanstring_backslash backslash_def
          split: option.splits)
  next
    case f
    then have "c = CHR 0x0C" by (simp add: char_eq_nat)
    then show ?thesis
      by (auto simp add: escape_char_def scanstring_backslash backslash_def
          split: option.splits)
  next
    case n
    then have "c = CHR 0x0A" by (simp add: char_eq_nat)
    then show ?thesis
      by (auto simp add: escape_char_def scanstring_backslash backslash_def
          split: option.splits)
  next
    case r
    then have "c = CHR 0x0D" by (simp add: char_eq_nat)
    then show ?thesis
      by (auto simp add: escape_char_def scanstring_backslash backslash_def
          split: option.splits)
  next
    case t
    then have "c = CHR 0x09" by (simp add: char_eq_nat)
    then show ?thesis
      by (auto simp add: escape_char_def scanstring_backslash backslash_def
          split: option.splits)
  next
    case u
    then have "escape_char c = [CHR 0x5C, CHR ''u'', CHR ''0'', CHR ''0'',
        hex_digit (?n div 16), hex_digit (?n mod 16)]"
      by (auto simp add: escape_char_def Let_def)
    with scanstring_u00 [OF u(1), of rest] show ?thesis
      by (simp split: option.splits)
  next
    case plain
    then have "c \<noteq> CHR 0x22" "c \<noteq> CHR 0x5C"
      by (auto simp add: char_eq_nat)
    with plain scanstring_plain [of c rest] show ?thesis
      by (simp add: escape_char_def Let_def)
  qed
qed

lemma scanstring_escaped:
  "scanstring (concat (map escape_char s) @ CHR 0x22 # rest) = Some (s, rest)"
proof (induction s)
  case Nil
  show ?case by (simp add: scanstring.simps(2))
next
  case (Cons c s)
  have "scanstring (concat (map escape_char (c # s)) @ CHR 0x22 # rest)
      = scanstring (escape_char c @ (concat (map escape_char s) @ CHR 0x22 # rest))"
    by simp
  also have "\<dots> = Some (c # s, rest)"
    by (simp only: scanstring_escape_char Cons.IH) simp
  finally show ?case .
qed


lemma skip_ws_not_ws: "\<not> is_ws c \<Longrightarrow> skip_ws (c # s) = c # s"
  by (simp add: skip_ws_def)

lemma skip_ws_spaces: "skip_ws (replicate n CHR '' '' @ s) = skip_ws s"
  by (induction n) (simp_all add: skip_ws_def is_ws_def)

lemma skip_ws_newline_indent: "skip_ws (newline_indent k @ s) = skip_ws s"
  using skip_ws_spaces [of "2 * k" s]
  by (simp add: newline_indent_def skip_ws_def is_ws_def)

lemma skip_ws_space: "skip_ws (CHR '' '' # s) = skip_ws s"
  by (simp add: skip_ws_def is_ws_def)

lemma encode_basestring_text:
  "encode_basestring s @ rest = CHR 0x22 # concat (map escape_char s) @ CHR 0x22 # rest"
  by (simp add: encode_basestring_def)

lemma skip_ws_encode_value: "skip_ws (encode_value v @ rest) = encode_value v @ rest"
  by (cases v) (simp_all add: encode_value_def encode_basestring_def skip_ws_def is_ws_def)

lemma scan_value_encoded: "scan_value (encode_value v @ rest) = Some (v, rest)"
proof (cases v)
  case None
  then show ?thesis by (simp add: encode_value_def scan_value_def)
next
  case (Some s)
  then show ?thesis
    by (simp add: encode_value_def encode_basestring_text scan_value_def scanstring_escaped)
qed

lemma encode_item_text:
  "encode_item (k, v) @ rest =
     CHR 0x22 # concat (map escape_char k) @ CHR 0x22 # CHR '':'' # CHR '' '' # encode_value v @ rest"
  by (simp add: encode_item_def encode_basestring_def)

lemma object_pairs_step:
  "object_pairs (concat (map escape_char k) @ CHR 0x22 # CHR '':'' # CHR '' ''
                  # encode_value v @ after) =
     (case skip_ws after of
        [] \<Rightarrow> None
      | d # s4 \<Rightarrow>
          if d = CHR ''}'' then Some ([(k, v)], s4)
          else if d \<noteq> CHR '','' then None
          else
            (case skip_ws s4 of
               [] \<Rightarrow> None
             | q # s5 \<Rightarrow>
                 if q \<noteq> CHR 0x22 then None
                 else
                   (case object_pairs s5 of
                      None \<Rightarrow> None
                    | Some (ps, r) \<Rightarrow> Some ((k, v) # ps, r))))"
proof -
  have c: "skip_ws (CHR '':'' # CHR '' '' # encode_value v @ after)
             = CHR '':'' # CHR '' '' # encode_value v @ after"
    by (simp add: skip_ws_not_ws is_ws_def)
  have v: "scan_value (skip_ws (CHR '' '' # encode_value v @ after)) = Some (v, after)"
    by (simp add: skip_ws_space skip_ws_encode_value scan_value_encoded)
  show ?thesis
    by (subst object_pairs.simps) (simp add: scanstring_escaped c v)
qed

lemma object_pairs_items:
  "object_pairs (tl (str_join (CHR '','' # newline_indent a) (map encode_item (x # xs))
                     @ newline_indent b @ CHR ''}'' # rest))
     = Some (x # xs, rest)"
proof (induction xs arbitrary: x)
  case Nil
  obtain k v where x: "x = (k, v)" by (cases x)
  have "skip_ws (newline_indent b @ CHR ''}'' # rest) = CHR ''}'' # rest"
    by (simp add: skip_ws_newline_indent skip_ws_not_ws is_ws_def)
  then show ?case
    using object_pairs_step [of k v "newline_indent b @ CHR ''}'' # rest"]
    by (simp add: x encode_item_text)
next
  case (Cons y ys)
  obtain k v where x: "x = (k, v)" by (cases x)
  obtain k' v' where y: "y = (k', v')" by (cases y)
  let ?next = "str_join (CHR '','' # newline_indent a) (map encode_item (y # ys))
                 @ newline_indent b @ CHR ''}'' # rest"
  have "\<exists>T. ?next = CHR 0x22 # T"
    by (cases ys) (simp_all add: y encode_item_text)
  then obtain T where T: "?next = CHR 0x22 # T" ..
  from Cons.IH [of y] have "object_pairs (tl ?next) = Some (y # ys, rest)" .
  then have IH: "object_pairs T = Some (y # ys, rest)"
    by (simp only: T list.sel)
  have "tl (str_join (CHR '','' # newline_indent a) (map encode_item (x # y # ys))
             @ newline_indent b @ CHR ''}'' # rest)
        = concat (map escape_char k) @ CHR 0x22 # CHR '':'' # CHR '' ''
            # encode_value v @ (CHR '','' # newline_indent a @ ?next)"
    by (simp add: x encode_item_text)
  then have "tl (str_join (CHR '','' # newline_indent a) (map encode_item (x # y # ys))
             @ newline_indent b @ CHR ''}'' # rest)
        = concat (map escape_char k) @ CHR 0x22 # CHR '':'' # CHR '' ''
            # encode_value v @ (CHR '','' # newline_indent a @ CHR 0x22 # T)"
    by (simp only: T)
  then show ?case
    by (simp add: object_pairs_step skip_ws_not_ws is_ws_def skip_ws_newline_indent IH x)
qed


lemma json_object_dict:
  "\<exists>T. iterencode_dict d lvl @ after = CHR ''{'' # T \<and> json_object T = Some (d, after)"
proof (cases d)
  case Nil
  then show ?thesis
    by (simp add: iterencode_dict_def json_object_def skip_ws_not_ws is_ws_def)
next
  case (Cons x xs)
  let ?items = "str_join (CHR '','' # newline_indent (lvl + 1)) (map encode_item (x # xs))
                  @ newline_indent lvl @ CHR ''}'' # after"
  obtain k v where x: "x = (k, v)" by (cases x)
  have "\<exists>U. ?items = CHR 0x22 # U"
    by (cases xs) (simp_all add: x encode_item_text)
  then obtain U where U: "?items = CHR 0x22 # U" ..
  from object_pairs_items [of "lvl + 1" x xs lvl after]
  have "object_pairs (tl ?items) = Some (x # xs, after)" .
  then have op: "object_pairs U = Some (d, after)"
    by (simp only: U list.sel Cons)
  have "iterencode_dict d lvl @ after = CHR ''{'' # newline_indent (lvl + 1) @ ?items"
    by (simp add: iterencode_dict_def Cons)
  then have "iterencode_dict d lvl @ after
               = CHR ''{'' # newline_indent (lvl + 1) @ CHR 0x22 # U"
    by (simp only: U)
  moreover have "json_object (newline_indent (lvl + 1) @ CHR 0x22 # U) = Some (d, after)"
    by (simp add: json_object_def skip_ws_newline_indent skip_ws_not_ws is_ws_def op)
  ultimately show ?thesis by blast
qed

lemma array_values_step:
  "array_values (iterencode_dict d lvl @ after) =
     (case skip_ws after of
        [] \<Rightarrow> None
      | c # s2 \<Rightarrow>
          if c = CHR '']'' then Some ([d], s2)
          else if c \<noteq> CHR '','' then None
          else
            (case array_values (skip_ws s2) of
               None \<Rightarrow> None
             | Some (objs, r) \<Rightarrow> Some (d # objs, r)))"
proof -
  from json_object_dict [of d lvl after] obtain T
    where T: "iterencode_dict d lvl @ after = CHR ''{'' # T" "json_object T = Some (d, after)"
    by blast
  have "array_values (CHR ''{'' # T) =
     (case skip_ws after of
        [] \<Rightarrow> None
      | c # s2 \<Rightarrow>
          if c = CHR '']'' then Some ([d], s2)
          else if c \<noteq> CHR '','' then None
          else
            (case array_values (skip_ws s2) of
               None \<Rightarrow> None
             | Some (objs, r) \<Rightarrow> Some (d # objs, r)))"
    by (subst array_values.simps) (simp add: T(2))
  then show ?thesis
    by (simp only: T(1))
qed

lemma array_values_dicts:
  "array_values (str_join (CHR '','' # newline_indent a)
                   (map (\<lambda>d. iterencode_dict d lvl) (x # xs))
                 @ newline_indent b @ CHR '']'' # rest)
     = Some (x # xs, rest)"
proof (induction xs arbitrary: x)
  case Nil
  show ?case
    by (simp add: array_values_step skip_ws_newline_indent skip_ws_not_ws is_ws_def)
next
  case (Cons y ys)
  let ?next = "str_join (CHR '','' # newline_indent a)
                   (map (\<lambda>d. iterencode_dict d lvl) (y # ys))
                 @ newline_indent b @ CHR '']'' # rest"
  have "\<exists>T. ?next = CHR ''{'' # T"
    by (cases ys; cases y) (simp_all add: iterencode_dict_def)
  then obtain T where T: "?next = CHR ''{'' # T" ..
  from Cons.IH [of y] have IH: "array_values (CHR ''{'' # T) = Some (y # ys, rest)"
    by (simp only: T)
  have "str_join (CHR '','' # newline_indent a)
                   (map (\<lambda>d. iterencode_dict d lvl) (x # y # ys))
                 @ newline_indent b @ CHR '']'' # rest
        = iterencode_dict x lvl @ (CHR '','' # newline_indent a @ ?next)"
    by simp
  then have "str_join (CHR '','' # newline_indent a)
                   (map (\<lambda>d. iterencode_dict d lvl) (x # y # ys))
                 @ newline_indent b @ CHR '']'' # rest
        = iterencode_dict x lvl @ (CHR '','' # newline_indent a @ CHR ''{'' # T)"
    by (simp only: T)
  then show ?case
    by (simp add: array_values_step skip_ws_not_ws is_ws_def skip_ws_newline_indent IH)
qed

lemma json_loads_iterencode_list: "json_loads (iterencode_list lst 0) = Some lst"
proof (cases lst)
  case Nil
  then show ?thesis
    by (simp add: iterencode_list_def json_loads_def json_array_def skip_ws_def is_ws_def)
next
  case (Cons x xs)
  let ?vals = "str_join (CHR '','' # newline_indent 1)
                   (map (\<lambda>d. iterencode_dict d 1) (x # xs))
                 @ newline_indent 0 @ CHR '']'' # []"
  have "\<exists>T. ?vals = CHR ''{'' # T"
    by (cases xs; cases x) (simp_all add: iterencode_dict_def)
  then obtain T where T: "?vals = CHR ''{'' # T" ..
  from array_values_dicts [of 1 1 x xs 0 "[]"]
  have av: "array_values (CHR ''{'' # T) = Some (lst, [])"
    by (simp only: T Cons)
  have "iterencode_list lst 0 = CHR ''['' # newline_indent 1 @ ?vals"
    by (simp add: iterencode_list_def Cons)
  then have "iterencode_list lst 0 = CHR ''['' # newline_indent 1 @ CHR ''{'' # T"
    by (simp only: T)
  then show ?thesis
    by (simp add: json_loads_def json_array_def skip_ws_not_ws is_ws_def
        skip_ws_newline_indent av) (simp add: skip_ws_def)
qed

lemma json_loads_json_dump: "json_loads (json_dump data) = Some (map headline_dict data)"
  by (simp add: json_dump_def json_loads_iterencode_list)


lemma save_results_json:
  assumes "fst (save_results env data output ''json'' h) = Inr ()"
  shows "snd (save_results env data output ''json'' h)
           = [Mkdir (path_parent env output), Write_file output (json_dump data),
              results_saved output]"
  using assms
  by (simp add: save_results_def Let_def split: option.splits)

lemma map_of_headline_dict:
  "map_of (headline_dict r) ''source'' = Some (Some (h_source r))"
  "map_of (headline_dict r) ''title'' = Some (Some (h_title r))"
  "map_of (headline_dict r) ''url'' = Some (Some (h_url r))"
  "map_of (headline_dict r) ''time'' = Some (h_time r)"
  by (simp_all add: headline_dict_def)

text \<open>
  Claim C9. When \<open>save_results\<close> with the format \<open>json\<close> succeeds on \<open>N\<close> records, it
  writes one file, whose text read back by the JSON reader is an array of \<open>N\<close> objects;
  the \<open>i\<close>-th object has under \<open>source\<close>, \<open>title\<close> and \<open>url\<close> the strings of the
  \<open>i\<close>-th record, and under \<open>time\<close> its time, null when absent, whatever the time is.
\<close>

theorem save_results_json_roundtrip:
  assumes "fst (save_results env data output ''json'' h) = Inr ()"
  shows "snd (save_results env data output ''json'' h)
           = [Mkdir (path_parent env output), Write_file output (json_dump data),
              results_saved output]
       \<and> (\<exists>objs. json_loads (json_dump data) = Some objs \<and> length objs = length data
            \<and> (\<forall>i < length data.
                  map_of (objs ! i) ''source'' = Some (Some (h_source (data ! i)))
                  \<and> map_of (objs ! i) ''title'' = Some (Some (h_title (data ! i)))
                  \<and> map_of (objs ! i) ''url'' = Some (Some (h_url (data ! i)))
                  \<and> map_of (objs ! i) ''time'' = Some (h_time (data ! i))))"
proof -
  have "json_loads (json_dump data) = Some (map headline_dict data)"
    by (rule json_loads_json_dump)
  moreover have "length (map headline_dict data) = length data"
    by simp
  moreover have "\<forall>i < length data.
      map_of (map headline_dict data ! i) ''source'' = Some (Some (h_source (data ! i)))
      \<and> map_of (map headline_dict data ! i) ''title'' = Some (Some (h_title (data ! i)))
      \<and> map_of (map headline_dict data ! i) ''url'' = Some (Some (h_url (data ! i)))
      \<and> map_of (map headline_dict data ! i) ''time'' = Some (h_time (data ! i))"
    by (simp add: map_of_headline_dict)
  ultimately show ?thesis
    using save_results_json [OF assms] by blast
qed

theorem save_results_json_roundtrip_witness:
  "fst (save_results demo
          [\<lparr>h_source = ''tech'', h_title = ''AI breakthrough'',
             h_url = ''https://example.com/x'', h_time = None\<rparr>,
           \<lparr>h_source = ''w'', h_title = [CHR 0x22, CHR ''a'', CHR 0x0A, CHR 0x01],
             h_url = ''u'', h_time = Some ''now''\<rparr>]
          ''headlines.json'' ''json'' []) = Inr ()
   \<and> (\<exists>objs. json_loads (json_dump
          [\<lparr>h_source = ''tech'', h_title = ''AI breakthrough'',
             h_url = ''https://example.com/x'', h_time = None\<rparr>,
           \<lparr>h_source = ''w'', h_title = [CHR 0x22, CHR ''a'', CHR 0x0A, CHR 0x01],
             h_url = ''u'', h_time = Some ''now''\<rparr>]) = Some objs
        \<and> length objs = 2
        \<and> map_of (objs ! 0) ''title'' = Some (Some ''AI breakthrough'')
        \<and> map_of (objs ! 0) ''time'' = Some None
        \<and> map_of (objs ! 1) ''title'' = Some (Some [CHR 0x22, CHR ''a'', CHR 0x0A, CHR 0x01])
        \<and> map_of (objs ! 1) ''time'' = Some (Some ''now''))"
proof -
  let ?data = "[\<lparr>h_source = ''tech'', h_title = ''AI breakthrough'',
             h_url = ''https://example.com/x'', h_time = None\<rparr>,
           \<lparr>h_source = ''w'', h_title = [CHR 0x22, CHR ''a'', CHR 0x0A, CHR 0x01],
             h_url = ''u'', h_time = Some ''now''\<rparr>]"
  have a: "fst (save_results demo ?data ''headlines.json'' ''json'' []) = Inr ()"
    by (simp add: save_results_def demo_def)
  from save_results_json_roundtrip [OF a] obtain objs
    where o: "json_loads (json_dump ?data) = Some objs" "length objs = length ?data"
      and f: "\<forall>i < length ?data.
                  map_of (objs ! i) ''source'' = Some (Some (h_source (?data ! i)))
                  \<and> map_of (objs ! i) ''title'' = Some (Some (h_title (?data ! i)))
                  \<and> map_of (objs ! i) ''url'' = Some (Some (h_url (?data ! i)))
                  \<and> map_of (objs ! i) ''time'' = Some (h_time (?data ! i))"
    by blast
  from f [rule_format, of 0] f [rule_format, of 1] o a show ?thesis
    by simp
qed

end
